theory Spec2Isabelle
  imports Complex_Main
begin

section \<open>JavaScript numbers\<close>

text \<open>
  The routine computes on JavaScript numbers (IEEE-754 binary64). A number is modelled as a
  finite real, one of the two infinities, or NaN. The behaviour of every operation on the
  special values is written out as IEEE-754 fixes it (NaN propagates, \<open>0/0\<close> and
  \<open>Infinity - Infinity\<close> are NaN, a comparison with NaN is false). The result of an
  operation on finite operands is the exact real result passed through a rounding function
  \<open>rnd\<close>, which every function below takes as its first argument: \<open>exact\<close> rounds
  nothing, \<open>binary64_range\<close> keeps the finite range of binary64 and sends what lies
  beyond it to an infinity. The two zeros of IEEE-754 are one value here: the divisor of
  every division in the routine is a square root, which is never the negative zero.
\<close>

datatype num = Fin real | PInf | NInf | NaN

type_synonym rounding = "real \<Rightarrow> num"

definition exact :: rounding where
  "exact x = Fin x"

text \<open>
  The least magnitude that binary64 rounds to an infinity: half an ulp above the largest
  finite value \<open>2\<^sup>1\<^sup>0\<^sup>2\<^sup>4 - 2\<^sup>9\<^sup>7\<^sup>1\<close>.
\<close>

definition binary64_overflow :: real where
  "binary64_overflow = 2 ^ 1024 - 2 ^ 970"

definition binary64_range :: rounding where
  "binary64_range x =
     (if binary64_overflow \<le> x then PInf
      else if x \<le> - binary64_overflow then NInf
      else Fin x)"

fun jneg :: "num \<Rightarrow> num" where
  "jneg (Fin x) = Fin (- x)"
| "jneg PInf = NInf"
| "jneg NInf = PInf"
| "jneg NaN = NaN"

text \<open>
  Rounding that commutes with negation, as every rounding to nearest does: the rounding
  of \<open>- x\<close> is the negation of the rounding of \<open>x\<close>.
\<close>

definition odd_rounding :: "rounding \<Rightarrow> bool" where
  "odd_rounding rnd = (\<forall>x. rnd (- x) = jneg (rnd x))"

text \<open>\<open>x < y\<close>: false as soon as one side is NaN.\<close>

fun jlt :: "num \<Rightarrow> num \<Rightarrow> bool" where
  "jlt (Fin x) y = (case y of Fin y' \<Rightarrow> x < y' | PInf \<Rightarrow> True | _ \<Rightarrow> False)"
| "jlt NInf y = (case y of Fin y' \<Rightarrow> True | PInf \<Rightarrow> True | _ \<Rightarrow> False)"
| "jlt PInf y = False"
| "jlt NaN y = False"

text \<open>
  Rounding that sends no non-negative real below zero, as every rounding to nearest does.
\<close>

definition rounds_nonneg :: "rounding \<Rightarrow> bool" where
  "rounds_nonneg rnd = (\<forall>x\<ge>0. \<not> jlt (rnd x) (Fin 0))"

text \<open>\<open>x + y\<close>: the sum of the two infinities is NaN.\<close>

fun jadd :: "rounding \<Rightarrow> num \<Rightarrow> num \<Rightarrow> num" where
  "jadd rnd (Fin x) y = (case y of Fin y' \<Rightarrow> rnd (x + y') | _ \<Rightarrow> y)"
| "jadd rnd PInf y = (case y of NaN \<Rightarrow> NaN | NInf \<Rightarrow> NaN | _ \<Rightarrow> PInf)"
| "jadd rnd NInf y = (case y of NaN \<Rightarrow> NaN | PInf \<Rightarrow> NaN | _ \<Rightarrow> NInf)"
| "jadd rnd NaN y = NaN"

text \<open>\<open>x - y\<close>: the difference of equal infinities is NaN.\<close>

fun jsub :: "rounding \<Rightarrow> num \<Rightarrow> num \<Rightarrow> num" where
  "jsub rnd (Fin x) y = (case y of Fin y' \<Rightarrow> rnd (x - y') | _ \<Rightarrow> jneg y)"
| "jsub rnd PInf y = (case y of NaN \<Rightarrow> NaN | PInf \<Rightarrow> NaN | _ \<Rightarrow> PInf)"
| "jsub rnd NInf y = (case y of NaN \<Rightarrow> NaN | NInf \<Rightarrow> NaN | _ \<Rightarrow> NInf)"
| "jsub rnd NaN y = NaN"

text \<open>Whether a number that is not NaN is below zero, for the sign rules of \<open>*\<close> and \<open>/\<close>.\<close>

fun negative :: "num \<Rightarrow> bool" where
  "negative (Fin x) = (x < 0)"
| "negative NInf = True"
| "negative PInf = False"
| "negative NaN = False"

text \<open>An infinity of the sign of the product (or quotient) of two numbers.\<close>

definition signed_inf :: "num \<Rightarrow> num \<Rightarrow> num" where
  "signed_inf x y = (if negative x = negative y then PInf else NInf)"

text \<open>\<open>x * y\<close>: an infinity times zero is NaN.\<close>

fun jmul :: "rounding \<Rightarrow> num \<Rightarrow> num \<Rightarrow> num" where
  "jmul rnd (Fin x) y =
     (case y of Fin y' \<Rightarrow> rnd (x * y') | NaN \<Rightarrow> NaN
      | _ \<Rightarrow> if x = 0 then NaN else signed_inf (Fin x) y)"
| "jmul rnd PInf y = (if y = NaN \<or> y = Fin 0 then NaN else signed_inf PInf y)"
| "jmul rnd NInf y = (if y = NaN \<or> y = Fin 0 then NaN else signed_inf NInf y)"
| "jmul rnd NaN y = NaN"

text \<open>\<open>x / y\<close>: \<open>0/0\<close> and \<open>Infinity/Infinity\<close> are NaN, a nonzero number over zero
  is an infinity, a finite number over an infinity is zero.\<close>

fun jdiv :: "rounding \<Rightarrow> num \<Rightarrow> num \<Rightarrow> num" where
  "jdiv rnd (Fin x) y =
     (case y of
        Fin y' \<Rightarrow>
          if y' = 0 then (if x = 0 then NaN else if 0 < x then PInf else NInf)
          else rnd (x / y')
      | NaN \<Rightarrow> NaN
      | _ \<Rightarrow> Fin 0)"
| "jdiv rnd PInf y = (case y of Fin y' \<Rightarrow> signed_inf PInf y | _ \<Rightarrow> NaN)"
| "jdiv rnd NInf y = (case y of Fin y' \<Rightarrow> signed_inf NInf y | _ \<Rightarrow> NaN)"
| "jdiv rnd NaN y = NaN"

text \<open>\<open>Math.sqrt\<close>\<close>

fun jsqrt :: "rounding \<Rightarrow> num \<Rightarrow> num" where
  "jsqrt rnd (Fin x) = (if x < 0 then NaN else rnd (sqrt x))"
| "jsqrt rnd PInf = PInf"
| "jsqrt rnd NInf = NaN"
| "jsqrt rnd NaN = NaN"

text \<open>\<open>Math.sign\<close>: 1, -1 or 0, and NaN for NaN.\<close>

fun jsign :: "num \<Rightarrow> num" where
  "jsign (Fin x) = Fin (sgn x)"
| "jsign PInf = Fin 1"
| "jsign NInf = Fin (- 1)"
| "jsign NaN = NaN"

section \<open>Arrays\<close>

text \<open>
  A \<open>number[]\<close> is a list. Reading an array past its end does not fail in JavaScript:
  it yields \<open>undefined\<close> (\<open>None\<close> here), which arithmetic converts to NaN.
\<close>

type_synonym vec = "num list"
type_synonym matrix = "num list list"

definition js_index :: "'a list \<Rightarrow> nat \<Rightarrow> 'a option" where
  "js_index xs i = (if i < length xs then Some (xs ! i) else None)"

fun to_number :: "num option \<Rightarrow> num" where
  "to_number None = NaN"
| "to_number (Some x) = x"

text \<open>\<open>xs.map((value, index) => f(value, index))\<close>\<close>

definition map_index :: "('a \<Rightarrow> nat \<Rightarrow> 'b) \<Rightarrow> 'a list \<Rightarrow> 'b list" where
  "map_index f xs = map (\<lambda>(value, index). f value index) (zip xs [0..<length xs])"

text \<open>\<open>xs.reduce((sum, value, index) => f(sum, value, index), init)\<close>\<close>

definition reduce_index :: "('b \<Rightarrow> 'a \<Rightarrow> nat \<Rightarrow> 'b) \<Rightarrow> 'b \<Rightarrow> 'a list \<Rightarrow> 'b" where
  "reduce_index f init xs = foldl (\<lambda>sum (value, index). f sum value index) init (zip xs [0..<length xs])"

section \<open>EigenvectorCentralityCalculator\<close>

definition dotProduct :: "rounding \<Rightarrow> vec \<Rightarrow> vec \<Rightarrow> num" where
  "dotProduct rnd a b =
     reduce_index (\<lambda>sum value index. jadd rnd sum (jmul rnd value (to_number (js_index b index))))
       (Fin 0) a"

text \<open>
  The Euclidean norm as \<open>vectorNormalize\<close> computes it in its first line:
  \<open>Math.sqrt(v.reduce((sum, value) => sum + value * value, 0))\<close>.
\<close>

definition euclidean_norm :: "rounding \<Rightarrow> vec \<Rightarrow> num" where
  "euclidean_norm rnd v =
     jsqrt rnd (foldl (\<lambda>sum value. jadd rnd sum (jmul rnd value value)) (Fin 0) v)"

definition vectorNormalize :: "rounding \<Rightarrow> vec \<Rightarrow> vec" where
  "vectorNormalize rnd v =
     (let norm = euclidean_norm rnd v
      in map (\<lambda>value. jdiv rnd value norm) v)"

definition matrixVectorMultiply :: "rounding \<Rightarrow> matrix \<Rightarrow> vec \<Rightarrow> vec" where
  "matrixVectorMultiply rnd matrix vector = map (\<lambda>row. dotProduct rnd row vector) matrix"

text \<open>
  The \<open>for\<close> loop of \<open>powerIteration\<close>, by the number of iterations still to run
  (\<open>nIter - i\<close>): the early \<open>return\<close> of step 5 ends the recursion. The iteration bound
  is a natural number, as in every call of the repository (\<open>1000\<close>). The function returns
  the array of the field \<open>eigenvector\<close>, the only field of the object the source returns.
\<close>

fun loop :: "rounding \<Rightarrow> matrix \<Rightarrow> vec \<Rightarrow> num \<Rightarrow> nat \<Rightarrow> vec \<Rightarrow> vec" where
  "loop rnd A b tol 0 r_k = r_k"
| "loop rnd A b tol (Suc n) r_k =
     (let y_k1 = map_index (\<lambda>value index. jadd rnd value (to_number (js_index b index)))
                   (matrixVectorMultiply rnd A r_k);
          mu = dotProduct rnd y_k1 r_k;
          r_k1 = vectorNormalize rnd (map (\<lambda>value. jmul rnd (jsign mu) value) y_k1);
          d = map_index (\<lambda>value index. jsub rnd value (to_number (js_index r_k index))) r_k1
      in if jlt (jsqrt rnd (dotProduct rnd d d)) tol then r_k1
         else loop rnd A b tol n r_k1)"

text \<open>
  \<open>powerIteration(A, b, nIter, tol, rng)\<close>. The source calls \<open>rng\<close> once, first of all;
  \<open>draw\<close> is the array that call returns. The default of \<open>tol\<close> is \<open>default_tol\<close>.
\<close>

definition powerIteration :: "rounding \<Rightarrow> matrix \<Rightarrow> vec \<Rightarrow> nat \<Rightarrow> num \<Rightarrow> vec \<Rightarrow> vec" where
  "powerIteration rnd A b nIter tol draw = loop rnd A b tol nIter (vectorNormalize rnd draw)"

definition default_tol :: num where
  "default_tol = Fin (1 / 100)"

section \<open>The run of a call, observed\<close>

text \<open>
  The source returns the eigenvector only. To state how a call ran, \<open>powerIteration_run\<close>
  is the same computation that also records the number of loop iterations executed,
  whether the call left the loop by the early return of step 5, and the arguments of the
  calls of \<open>vectorNormalize\<close> in the order they were made.
\<close>

record run =
  eigenvector :: vec
  iterations :: nat
  converged :: bool
  normalized :: "vec list"

fun loop_run :: "rounding \<Rightarrow> matrix \<Rightarrow> vec \<Rightarrow> num \<Rightarrow> nat \<Rightarrow> vec \<Rightarrow> run" where
  "loop_run rnd A b tol 0 r_k =
     \<lparr>eigenvector = r_k, iterations = 0, converged = False, normalized = []\<rparr>"
| "loop_run rnd A b tol (Suc n) r_k =
     (let y_k1 = map_index (\<lambda>value index. jadd rnd value (to_number (js_index b index)))
                   (matrixVectorMultiply rnd A r_k);
          mu = dotProduct rnd y_k1 r_k;
          v = map (\<lambda>value. jmul rnd (jsign mu) value) y_k1;
          r_k1 = vectorNormalize rnd v;
          d = map_index (\<lambda>value index. jsub rnd value (to_number (js_index r_k index))) r_k1
      in if jlt (jsqrt rnd (dotProduct rnd d d)) tol
         then \<lparr>eigenvector = r_k1, iterations = 1, converged = True, normalized = [v]\<rparr>
         else (let rest = loop_run rnd A b tol n r_k1
               in rest\<lparr>iterations := Suc (iterations rest), normalized := v # normalized rest\<rparr>))"

definition powerIteration_run :: "rounding \<Rightarrow> matrix \<Rightarrow> vec \<Rightarrow> nat \<Rightarrow> num \<Rightarrow> vec \<Rightarrow> run" where
  "powerIteration_run rnd A b nIter tol draw =
     (let rest = loop_run rnd A b tol nIter (vectorNormalize rnd draw)
      in rest\<lparr>normalized := draw # normalized rest\<rparr>)"

section \<open>The steps of the algorithm, named\<close>

text \<open>
  The quantities of one iteration as the specification names them:
  \<open>y = A r + b\<close>, \<open>\<mu> = y \<cdot> r\<close>, the vector \<open>sign(\<mu>) y\<close> handed to the normalization,
  the next iterate, the update \<open>r\<^sub>i\<^sub>+\<^sub>1 - r\<^sub>i\<close> and its Euclidean norm. Each is the
  subexpression of the loop body that computes it.
\<close>

definition affine :: "rounding \<Rightarrow> matrix \<Rightarrow> vec \<Rightarrow> vec \<Rightarrow> vec" where
  "affine rnd A b r =
     map_index (\<lambda>value index. jadd rnd value (to_number (js_index b index)))
       (matrixVectorMultiply rnd A r)"

definition to_normalize :: "rounding \<Rightarrow> matrix \<Rightarrow> vec \<Rightarrow> vec \<Rightarrow> vec" where
  "to_normalize rnd A b r =
     map (\<lambda>value. jmul rnd (jsign (dotProduct rnd (affine rnd A b r) r)) value) (affine rnd A b r)"

definition step :: "rounding \<Rightarrow> matrix \<Rightarrow> vec \<Rightarrow> vec \<Rightarrow> vec" where
  "step rnd A b r = vectorNormalize rnd (to_normalize rnd A b r)"

definition delta :: "rounding \<Rightarrow> vec \<Rightarrow> vec \<Rightarrow> vec" where
  "delta rnd r1 r0 = map_index (\<lambda>value index. jsub rnd value (to_number (js_index r0 index))) r1"

definition delta_norm :: "rounding \<Rightarrow> vec \<Rightarrow> vec \<Rightarrow> num" where
  "delta_norm rnd r1 r0 = jsqrt rnd (dotProduct rnd (delta rnd r1 r0) (delta rnd r1 r0))"

text \<open>The test of step 5 at the iterate \<open>r\<close>.\<close>

definition stops :: "rounding \<Rightarrow> matrix \<Rightarrow> vec \<Rightarrow> num \<Rightarrow> vec \<Rightarrow> bool" where
  "stops rnd A b tol r = jlt (delta_norm rnd (step rnd A b r) r) tol"

text \<open>The iterate \<open>r\<^sub>k\<close>: \<open>k\<close> steps from \<open>r\<^sub>0\<close>, whatever the tolerance.\<close>

fun iterate :: "rounding \<Rightarrow> matrix \<Rightarrow> vec \<Rightarrow> nat \<Rightarrow> vec \<Rightarrow> vec" where
  "iterate rnd A b 0 r0 = r0"
| "iterate rnd A b (Suc k) r0 = step rnd A b (iterate rnd A b k r0)"

section \<open>Predicates on vectors and matrices\<close>

fun is_finite :: "num \<Rightarrow> bool" where
  "is_finite (Fin x) = True"
| "is_finite PInf = False"
| "is_finite NInf = False"
| "is_finite NaN = False"

definition finite_vec :: "vec \<Rightarrow> bool" where
  "finite_vec v = list_all is_finite v"

definition finite_matrix :: "matrix \<Rightarrow> bool" where
  "finite_matrix A = list_all finite_vec A"

text \<open>Every entry is zero: the vector whose normalization divides zero by zero.\<close>

definition zero_vec :: "vec \<Rightarrow> bool" where
  "zero_vec v = list_all (\<lambda>x. x = Fin 0) v"

definition square_matrix :: "matrix \<Rightarrow> nat \<Rightarrow> bool" where
  "square_matrix A N = (length A = N \<and> list_all (\<lambda>row. length row = N) A)"

section \<open>The graphs of the specification's scenarios\<close>

text \<open>Two nodes joined by an edge of weight 1.\<close>

definition two_nodes :: matrix where
  "two_nodes = [[Fin 0, Fin 1], [Fin 1, Fin 0]]"

text \<open>The star of five nodes: node 0 joined to each of the nodes 1 to 4 by an edge of weight 1.\<close>

definition star :: matrix where
  "star = [[Fin 0, Fin 1, Fin 1, Fin 1, Fin 1],
           [Fin 1, Fin 0, Fin 0, Fin 0, Fin 0],
           [Fin 1, Fin 0, Fin 0, Fin 0, Fin 0],
           [Fin 1, Fin 0, Fin 0, Fin 0, Fin 0],
           [Fin 1, Fin 0, Fin 0, Fin 0, Fin 0]]"

text \<open>The bias of the doping scenario, at the center of the star only, and no bias.\<close>

definition doping :: vec where
  "doping = [Fin 1, Fin 0, Fin 0, Fin 0, Fin 0]"

definition no_doping :: vec where
  "no_doping = [Fin 0, Fin 0, Fin 0, Fin 0, Fin 0]"

text \<open>The graph of \<open>N\<close> nodes and no edge, and the bias that dopes no node.\<close>

definition zero_matrix :: "nat \<Rightarrow> matrix" where
  "zero_matrix N = replicate N (replicate N (Fin 0))"

definition zero_vector :: "nat \<Rightarrow> vec" where
  "zero_vector N = replicate N (Fin 0)"

text \<open>\<open>Math.abs\<close>: the magnitude of a centrality score.\<close>

fun jabs :: "num \<Rightarrow> num" where
  "jabs (Fin x) = Fin \<bar>x\<bar>"
| "jabs PInf = PInf"
| "jabs NInf = PInf"
| "jabs NaN = NaN"

text \<open>
  A number within \<open>eps\<close> of a real, and a vector whose entries are each within \<open>eps\<close>
  of those of a vector of reals or of its negation: equal to it up to the global sign.
\<close>

fun near :: "real \<Rightarrow> num \<Rightarrow> real \<Rightarrow> bool" where
  "near eps (Fin x) c = (\<bar>x - c\<bar> < eps)"
| "near eps PInf c = False"
| "near eps NInf c = False"
| "near eps NaN c = False"

definition equal_up_to_sign :: "real \<Rightarrow> vec \<Rightarrow> real list \<Rightarrow> bool" where
  "equal_up_to_sign eps v cs =
     (list_all2 (near eps) v cs \<or> list_all2 (near eps) v (map uminus cs))"

section \<open>The call over a store of arrays\<close>

text \<open>
  JavaScript arrays are objects: \<open>A\<close>, its rows, \<open>b\<close> and the drawn vector are shared with
  the caller and may be shared with each other. To state what a call writes, the same
  computation is given over an explicit store: a list of arrays, the address of an array
  being its position. \<open>map\<close> allocates its result at the end of the store; \<open>reduce\<close> and
  indexing only read. The source uses no other operation on arrays.
\<close>

datatype array = Numbers vec | Rows "nat list"

type_synonym store = "array list"

definition alloc :: "store \<Rightarrow> array \<Rightarrow> nat \<times> store" where
  "alloc s a = (length s, s @ [a])"

definition numbers :: "store \<Rightarrow> nat \<Rightarrow> vec" where
  "numbers s p = (case js_index s p of Some (Numbers v) \<Rightarrow> v | _ \<Rightarrow> [])"

definition rows :: "store \<Rightarrow> nat \<Rightarrow> nat list" where
  "rows s p = (case js_index s p of Some (Rows ps) \<Rightarrow> ps | _ \<Rightarrow> [])"

text \<open>The matrix that the array of row addresses at \<open>p\<close> stands for.\<close>

definition matrix_at :: "store \<Rightarrow> nat \<Rightarrow> matrix" where
  "matrix_at s p = map (numbers s) (rows s p)"

definition dotProduct_st :: "rounding \<Rightarrow> store \<Rightarrow> nat \<Rightarrow> nat \<Rightarrow> num" where
  "dotProduct_st rnd s a b = dotProduct rnd (numbers s a) (numbers s b)"

definition vectorNormalize_st :: "rounding \<Rightarrow> store \<Rightarrow> nat \<Rightarrow> nat \<times> store" where
  "vectorNormalize_st rnd s v = alloc s (Numbers (vectorNormalize rnd (numbers s v)))"

definition matrixVectorMultiply_st :: "rounding \<Rightarrow> store \<Rightarrow> nat \<Rightarrow> nat \<Rightarrow> nat \<times> store" where
  "matrixVectorMultiply_st rnd s matrix vector =
     alloc s (Numbers (map (\<lambda>row. dotProduct_st rnd s row vector) (rows s matrix)))"

text \<open>
  The loop over the store. Each \<open>map\<close> of the body allocates: the product \<open>A r\<close>, the sum
  with the bias, its multiple by the sign, the normalized vector and the two arrays of
  differences handed to \<open>dotProduct\<close> in the test.
\<close>

fun loop_st :: "rounding \<Rightarrow> nat \<Rightarrow> nat \<Rightarrow> num \<Rightarrow> nat \<Rightarrow> nat \<Rightarrow> store \<Rightarrow> nat \<times> store" where
  "loop_st rnd A b tol 0 r_k s = (r_k, s)"
| "loop_st rnd A b tol (Suc n) r_k s =
     (let (product, s1) = matrixVectorMultiply_st rnd s A r_k;
          (y_k1, s2) = alloc s1 (Numbers
             (map_index (\<lambda>value index. jadd rnd value (to_number (js_index (numbers s1 b) index)))
                (numbers s1 product)));
          mu = dotProduct_st rnd s2 y_k1 r_k;
          (signed, s3) = alloc s2 (Numbers (map (\<lambda>value. jmul rnd (jsign mu) value) (numbers s2 y_k1)));
          (r_k1, s4) = vectorNormalize_st rnd s3 signed;
          (d1, s5) = alloc s4 (Numbers
             (map_index (\<lambda>value index. jsub rnd value (to_number (js_index (numbers s4 r_k) index)))
                (numbers s4 r_k1)));
          (d2, s6) = alloc s5 (Numbers
             (map_index (\<lambda>value index. jsub rnd value (to_number (js_index (numbers s5 r_k) index)))
                (numbers s5 r_k1)))
      in if jlt (jsqrt rnd (dotProduct_st rnd s6 d1 d2)) tol then (r_k1, s6)
         else loop_st rnd A b tol n r_k1 s6)"

text \<open>
  The call over the store. \<open>rng\<close> is the caller's function: it returns the address of the
  drawn array and the store it leaves.
\<close>

definition powerIteration_st ::
  "rounding \<Rightarrow> nat \<Rightarrow> nat \<Rightarrow> nat \<Rightarrow> num \<Rightarrow> (store \<Rightarrow> nat \<times> store) \<Rightarrow> store \<Rightarrow> nat \<times> store" where
  "powerIteration_st rnd A b nIter tol rng s =
     (let (drawn, s0) = rng s;
          (r_k, s1) = vectorNormalize_st rnd s0 drawn
      in loop_st rnd A b tol nIter r_k s1)"

text \<open>Every array of the store \<open>s\<close> is in \<open>s'\<close>, at its address and with its contents.\<close>

definition unchanged :: "store \<Rightarrow> store \<Rightarrow> bool" where
  "unchanged s s' = (take (length s) s' = s)"

text \<open>
  The addresses \<open>A\<close> and \<open>b\<close> and the rows of \<open>A\<close> are arrays of the store. (An address
  beyond the store would come to name an array allocated later.)
\<close>

definition allocated :: "store \<Rightarrow> nat \<Rightarrow> nat \<Rightarrow> bool" where
  "allocated s A b = (A < length s \<and> b < length s \<and> list_all (\<lambda>row. row < length s) (rows s A))"

section \<open>The loop in terms of the named steps\<close>

lemma loop_Suc:
  "loop rnd A b tol (Suc n) r =
     (if stops rnd A b tol r then step rnd A b r else loop rnd A b tol n (step rnd A b r))"
  by (simp add: Let_def stops_def step_def to_normalize_def affine_def delta_norm_def delta_def)

lemma loop_run_Suc:
  "loop_run rnd A b tol (Suc n) r =
     (if stops rnd A b tol r
      then \<lparr>eigenvector = step rnd A b r, iterations = 1, converged = True,
             normalized = [to_normalize rnd A b r]\<rparr>
      else (loop_run rnd A b tol n (step rnd A b r))
             \<lparr>iterations := Suc (iterations (loop_run rnd A b tol n (step rnd A b r))),
              normalized := to_normalize rnd A b r # normalized (loop_run rnd A b tol n (step rnd A b r))\<rparr>)"
  by (simp add: Let_def stops_def step_def to_normalize_def affine_def delta_norm_def delta_def)

declare loop.simps(2) [simp del] loop_run.simps(2) [simp del]

lemma loop_numeral:
  "loop rnd A b tol (numeral k) r =
     (if stops rnd A b tol r then step rnd A b r
      else loop rnd A b tol (pred_numeral k) (step rnd A b r))"
  by (simp add: numeral_eq_Suc loop_Suc)

lemma loop_run_numeral:
  "loop_run rnd A b tol (numeral k) r =
     (if stops rnd A b tol r
      then \<lparr>eigenvector = step rnd A b r, iterations = 1, converged = True,
             normalized = [to_normalize rnd A b r]\<rparr>
      else (loop_run rnd A b tol (pred_numeral k) (step rnd A b r))
             \<lparr>iterations := Suc (iterations (loop_run rnd A b tol (pred_numeral k) (step rnd A b r))),
              normalized := to_normalize rnd A b r #
                normalized (loop_run rnd A b tol (pred_numeral k) (step rnd A b r))\<rparr>)"
  by (simp add: numeral_eq_Suc loop_run_Suc)

lemma eigenvector_loop_run: "eigenvector (loop_run rnd A b tol n r) = loop rnd A b tol n r"
  by (induction n arbitrary: r) (simp_all add: loop_Suc loop_run_Suc)

lemma eigenvector_powerIteration_run:
  "eigenvector (powerIteration_run rnd A b nIter tol draw) = powerIteration rnd A b nIter tol draw"
  by (simp add: powerIteration_run_def powerIteration_def Let_def eigenvector_loop_run)

lemma iterate_shift: "iterate rnd A b k (step rnd A b r) = iterate rnd A b (Suc k) r"
  by (induction k) simp_all

lemma map_upt_Suc_shift: "map f [0..<Suc n] = f 0 # map (\<lambda>j. f (Suc j)) [0..<n]"
  by (simp only: upt_conv_Cons [of 0 "Suc n"] map_Suc_upt [symmetric]) (simp add: comp_def)

text \<open>A run that meets no stopping test executes every iteration and returns the last iterate.\<close>

lemma loop_run_exhausts:
  "(\<And>j. j < n \<Longrightarrow> \<not> stops rnd A b tol (iterate rnd A b j r)) \<Longrightarrow>
   loop_run rnd A b tol n r =
     \<lparr>eigenvector = iterate rnd A b n r, iterations = n, converged = False,
      normalized = map (\<lambda>j. to_normalize rnd A b (iterate rnd A b j r)) [0..<n]\<rparr>"
proof (induction n arbitrary: r)
  case 0
  show ?case by simp
next
  case (Suc n)
  have first: "\<not> stops rnd A b tol r"
    using Suc.prems [of 0] by simp
  have rest: "\<not> stops rnd A b tol (iterate rnd A b j (step rnd A b r))" if "j < n" for j
    using Suc.prems [of "Suc j"] that by (simp add: iterate_shift)
  have tail: "loop_run rnd A b tol n (step rnd A b r) =
     \<lparr>eigenvector = iterate rnd A b n (step rnd A b r), iterations = n, converged = False,
      normalized = map (\<lambda>j. to_normalize rnd A b (iterate rnd A b j (step rnd A b r))) [0..<n]\<rparr>"
    by (rule Suc.IH) (rule rest)
  show ?case
    by (simp add: loop_run_Suc first tail map_upt_Suc_shift iterate_shift del: upt_Suc)
qed

lemma loop_run_stops:
  "k < n \<Longrightarrow> (\<And>j. j < k \<Longrightarrow> \<not> stops rnd A b tol (iterate rnd A b j r)) \<Longrightarrow>
   stops rnd A b tol (iterate rnd A b k r) \<Longrightarrow>
   loop_run rnd A b tol n r =
     \<lparr>eigenvector = iterate rnd A b (Suc k) r, iterations = Suc k, converged = True,
      normalized = map (\<lambda>j. to_normalize rnd A b (iterate rnd A b j r)) [0..<Suc k]\<rparr>"
proof (induction k arbitrary: n r)
  case 0
  then obtain m where n: "n = Suc m" by (cases n) auto
  from 0 show ?case unfolding n loop_run_Suc by simp
next
  case (Suc k)
  then obtain m where n: "n = Suc m" and km: "k < m" by (cases n) auto
  have first: "\<not> stops rnd A b tol r"
    using Suc.prems(2) [of 0] by simp
  have rest: "\<not> stops rnd A b tol (iterate rnd A b j (step rnd A b r))" if "j < k" for j
    using Suc.prems(2) [of "Suc j"] that by (simp add: iterate_shift)
  have last: "stops rnd A b tol (iterate rnd A b k (step rnd A b r))"
    using Suc.prems(3) by (simp add: iterate_shift)
  have tail: "loop_run rnd A b tol m (step rnd A b r) =
     \<lparr>eigenvector = iterate rnd A b (Suc k) (step rnd A b r), iterations = Suc k, converged = True,
      normalized = map (\<lambda>j. to_normalize rnd A b (iterate rnd A b j (step rnd A b r))) [0..<Suc k]\<rparr>"
    by (rule Suc.IH [OF km _ last]) (rule rest)
  show ?case
    by (simp add: n loop_run_Suc first tail map_upt_Suc_shift iterate_shift del: upt_Suc)
qed

section \<open>Arrays: structure of the indexed map and reduce\<close>

lemma length_map_index [simp]: "length (map_index f xs) = length xs"
  by (simp add: map_index_def)

lemma nth_map_index [simp]: "i < length xs \<Longrightarrow> map_index f xs ! i = f (xs ! i) i"
  by (simp add: map_index_def)

lemma map_index_Nil [simp]: "map_index f [] = []"
  by (simp add: map_index_def)

text \<open>The summands of a dot product, and the dot product as their sum from the left.\<close>

lemma dotProduct_foldl:
  "dotProduct rnd a b =
     foldl (jadd rnd) (Fin 0) (map_index (\<lambda>value index. jmul rnd value (to_number (js_index b index))) a)"
  by (simp add: dotProduct_def reduce_index_def map_index_def foldl_map case_prod_unfold)

lemma length_vectorNormalize [simp]: "length (vectorNormalize rnd v) = length v"
  by (simp add: vectorNormalize_def Let_def)

lemma length_matrixVectorMultiply [simp]: "length (matrixVectorMultiply rnd A r) = length A"
  by (simp add: matrixVectorMultiply_def)

lemma length_affine [simp]: "length (affine rnd A b r) = length A"
  by (simp add: affine_def)

lemma length_to_normalize [simp]: "length (to_normalize rnd A b r) = length A"
  by (simp add: to_normalize_def)

lemma length_step [simp]: "length (step rnd A b r) = length A"
  by (simp add: step_def)

section \<open>Exact arithmetic on finite vectors\<close>

lemma finite_vec_conv: "finite_vec v \<longleftrightarrow> (\<exists>xs. v = map Fin xs)"
proof
  assume "finite_vec v"
  then show "\<exists>xs. v = map Fin xs"
  proof (induction v)
    case Nil
    show ?case by simp
  next
    case (Cons x v)
    then obtain xs where "v = map Fin xs" by (auto simp: finite_vec_def)
    moreover from Cons.prems obtain a where "x = Fin a"
      by (cases x) (auto simp: finite_vec_def)
    ultimately have "x # v = map Fin (a # xs)" by simp
    then show ?case by (rule exI)
  qed
next
  assume "\<exists>xs. v = map Fin xs"
  then show "finite_vec v" by (auto simp: finite_vec_def list_all_iff)
qed

lemma foldl_jadd_exact: "foldl (jadd exact) (Fin a) (map Fin zs) = Fin (a + sum_list zs)"
  by (induction zs arbitrary: a) (simp_all add: exact_def add.assoc)

lemma products_exact:
  "length xs \<le> length ys \<Longrightarrow>
   map_index (\<lambda>value index. jmul exact value (to_number (js_index (map Fin ys) index))) (map Fin xs) =
     map Fin (map2 (*) xs ys)"
  by (rule nth_equalityI) (simp_all add: js_index_def exact_def)

lemma dotProduct_exact:
  "length xs \<le> length ys \<Longrightarrow>
   dotProduct exact (map Fin xs) (map Fin ys) = Fin (sum_list (map2 (*) xs ys))"
  by (simp only: dotProduct_foldl products_exact foldl_jadd_exact) simp

lemma squares_exact:
  "foldl (\<lambda>sum value. jadd exact sum (jmul exact value value)) (Fin a) (map Fin xs) =
     Fin (a + (\<Sum>x\<leftarrow>xs. x * x))"
  by (induction xs arbitrary: a) (simp_all add: exact_def add.assoc)

lemma euclidean_norm_exact:
  "euclidean_norm exact (map Fin xs) = Fin (sqrt (\<Sum>x\<leftarrow>xs. x * x))"
proof -
  have "0 \<le> (\<Sum>x\<leftarrow>xs. x * x)" by (rule sum_list_nonneg) auto
  then show ?thesis by (simp add: euclidean_norm_def squares_exact exact_def)
qed

lemma sum_squares_zero_iff: "(\<Sum>x\<leftarrow>xs. x * x) = (0::real) \<longleftrightarrow> (\<forall>x\<in>set xs. x = 0)"
proof (induction xs)
  case Nil
  show ?case by simp
next
  case (Cons a xs)
  have nn: "0 \<le> (\<Sum>x\<leftarrow>xs. x * x)" by (rule sum_list_nonneg) auto
  have "a * a + (\<Sum>x\<leftarrow>xs. x * x) = 0 \<longleftrightarrow> a * a = 0 \<and> (\<Sum>x\<leftarrow>xs. x * x) = 0"
    using nn by (intro add_nonneg_eq_0_iff) auto
  with Cons show ?case by simp
qed

lemma zero_vec_conv: "zero_vec (map Fin xs) \<longleftrightarrow> (\<Sum>x\<leftarrow>xs. x * x) = 0"
  by (simp add: zero_vec_def list_all_iff sum_squares_zero_iff)

lemma vectorNormalize_exact:
  "\<not> zero_vec (map Fin xs) \<Longrightarrow>
   vectorNormalize exact (map Fin xs) = map Fin (map (\<lambda>x. x / sqrt (\<Sum>x\<leftarrow>xs. x * x)) xs)"
  by (simp add: vectorNormalize_def euclidean_norm_exact zero_vec_conv exact_def)

lemma vectorNormalize_exact_unit:
  assumes "\<not> zero_vec (map Fin xs)"
  shows "euclidean_norm exact (vectorNormalize exact (map Fin xs)) = Fin 1"
proof -
  let ?s = "\<Sum>x\<leftarrow>xs. x * x"
  have nn: "0 \<le> ?s" by (rule sum_list_nonneg) auto
  with assms have pos: "0 < ?s" by (simp add: zero_vec_conv)
  have "(\<Sum>x\<leftarrow>map (\<lambda>x. x / sqrt ?s) xs. x * x) = (\<Sum>x\<leftarrow>xs. (x * x) / ?s)"
    using pos by (simp add: comp_def power2_eq_square [symmetric] power_divide)
  also have "\<dots> = (\<Sum>x\<leftarrow>xs. (x * x) * (1 / ?s))" by simp
  also have "\<dots> = ?s * (1 / ?s)" by (simp only: sum_list_mult_const)
  also have "\<dots> = ?s / ?s" by simp
  also have "\<dots> = 1" using pos by simp
  finally have one: "(\<Sum>x\<leftarrow>map (\<lambda>x. x / sqrt ?s) xs. x * x) = 1" .
  show ?thesis
    unfolding vectorNormalize_exact [OF assms] euclidean_norm_exact one by simp
qed

lemma finite_vec_map_Fin [simp]: "finite_vec (map Fin xs)"
  by (simp add: finite_vec_conv) blast

lemma affine_exact:
  assumes A: "finite_matrix A" "square_matrix A N"
    and b: "finite_vec b" "length b = N"
    and r: "finite_vec r" "length r = N"
  shows "finite_vec (affine exact A b r)"
proof -
  from b r obtain bs rs where bs: "b = map Fin bs" and rs: "r = map Fin rs"
    by (auto simp: finite_vec_conv)
  have "is_finite (affine exact A b r ! i)" if i: "i < length A" for i
  proof -
    from A i have "finite_vec (A ! i)" "length (A ! i) = N"
      by (auto simp: finite_matrix_def square_matrix_def list_all_length)
    then obtain xs where xs: "A ! i = map Fin xs" "length xs = N"
      by (auto simp: finite_vec_conv)
    have "dotProduct exact (A ! i) r = Fin (sum_list (map2 (*) xs rs))"
      unfolding xs rs using xs r rs by (intro dotProduct_exact) simp
    moreover have "i < length bs" using i A b bs by (simp add: square_matrix_def)
    ultimately show ?thesis
      using i by (simp add: affine_def matrixVectorMultiply_def js_index_def bs exact_def)
  qed
  then show ?thesis
    by (simp add: finite_vec_def list_all_length)
qed

lemma to_normalize_exact:
  assumes A: "finite_matrix A" "square_matrix A N"
    and b: "finite_vec b" "length b = N"
    and r: "finite_vec r" "length r = N"
  shows "finite_vec (to_normalize exact A b r)"
proof -
  have "finite_vec (affine exact A b r)" using assms by (rule affine_exact)
  then obtain ys where ys: "affine exact A b r = map Fin ys"
    by (auto simp: finite_vec_conv)
  from r obtain rs where rs: "r = map Fin rs" by (auto simp: finite_vec_conv)
  have "length ys = length A" using ys length_affine [of exact A b r] by simp
  then have "length ys \<le> length rs" using A r rs by (simp add: square_matrix_def)
  then have mu: "dotProduct exact (map Fin ys) (map Fin rs) = Fin (sum_list (map2 (*) ys rs))"
    by (rule dotProduct_exact)
  show ?thesis
    unfolding to_normalize_def ys unfolding rs mu
    by (simp add: finite_vec_def list_all_iff exact_def)
qed

lemma vectorNormalize_exact_finite:
  "finite_vec v \<Longrightarrow> \<not> zero_vec v \<Longrightarrow> finite_vec (vectorNormalize exact v)"
proof -
  assume "finite_vec v" and nz: "\<not> zero_vec v"
  then obtain xs where xs: "v = map Fin xs" by (auto simp: finite_vec_conv)
  from nz have "vectorNormalize exact (map Fin xs) =
      map Fin (map (\<lambda>x. x / sqrt (\<Sum>x\<leftarrow>xs. x * x)) xs)"
    unfolding xs by (rule vectorNormalize_exact)
  then show ?thesis
    unfolding xs by (simp only: finite_vec_map_Fin)
qed

lemma vectorNormalize_exact_unit_vec:
  "finite_vec v \<Longrightarrow> \<not> zero_vec v \<Longrightarrow> euclidean_norm exact (vectorNormalize exact v) = Fin 1"
  by (auto simp: finite_vec_conv vectorNormalize_exact_unit)

lemma loop_run_exact_unit:
  assumes A: "finite_matrix A" "square_matrix A N"
    and b: "finite_vec b" "length b = N"
  shows "finite_vec r \<Longrightarrow> length r = N \<Longrightarrow> euclidean_norm exact r = Fin 1 \<Longrightarrow>
     euclidean_norm exact (eigenvector (loop_run exact A b tol n r)) = Fin 1 \<or>
     list_ex zero_vec (normalized (loop_run exact A b tol n r))"
proof (induction n arbitrary: r)
  case 0
  then show ?case by simp
next
  case (Suc n)
  let ?v = "to_normalize exact A b r"
  have fin: "finite_vec ?v"
    using A b Suc.prems(1,2) by (rule to_normalize_exact)
  show ?case
  proof (cases "zero_vec ?v")
    case True
    then show ?thesis by (simp add: loop_run_Suc)
  next
    case False
    have 1: "finite_vec (step exact A b r)"
      unfolding step_def using fin False by (rule vectorNormalize_exact_finite)
    have 2: "length (step exact A b r) = N"
      using A by (simp add: square_matrix_def)
    have 3: "euclidean_norm exact (step exact A b r) = Fin 1"
      unfolding step_def using fin False by (rule vectorNormalize_exact_unit_vec)
    from Suc.IH [OF 1 2 3] 3 show ?thesis
      by (auto simp: loop_run_Suc)
  qed
qed

section \<open>Evaluation on concrete inputs\<close>

lemmas run_defs = powerIteration_def powerIteration_run_def loop_numeral loop_run_numeral
  stops_def step_def to_normalize_def affine_def delta_norm_def delta_def
  vectorNormalize_def euclidean_norm_def matrixVectorMultiply_def dotProduct_def
  map_index_def reduce_index_def js_index_def signed_inf_def default_tol_def Let_def

lemmas pred_defs = square_matrix_def finite_matrix_def finite_vec_def zero_vec_def

section \<open>NaN propagates\<close>

lemma jadd_NaN_right [simp]: "jadd rnd x NaN = NaN"
  by (cases x) simp_all

lemma jmul_NaN_right [simp]: "jmul rnd x NaN = NaN"
  by (cases x) simp_all

lemma foldl_jadd_NaN [simp]: "foldl (jadd rnd) NaN xs = NaN"
  by (induction xs) simp_all

lemma foldl_jadd_has_NaN: "NaN \<in> set xs \<Longrightarrow> foldl (jadd rnd) a xs = NaN"
  by (induction xs arbitrary: a) auto

lemma dotProduct_NaN_left:
  assumes "i < length a" and "a ! i = NaN"
  shows "dotProduct rnd a b = NaN"
proof -
  let ?ps = "map_index (\<lambda>value index. jmul rnd value (to_number (js_index b index))) a"
  have "?ps ! i = NaN" using assms by simp
  moreover have "i < length ?ps" using assms by simp
  ultimately have "NaN \<in> set ?ps" by (metis nth_mem)
  then show ?thesis by (simp add: dotProduct_foldl foldl_jadd_has_NaN)
qed

lemma to_number_index_NaN [simp]: "to_number (js_index (replicate n NaN) i) = NaN"
  by (simp add: js_index_def)

lemma dotProduct_NaN_right:
  assumes "a \<noteq> []"
  shows "dotProduct rnd a (replicate n NaN) = NaN"
proof -
  let ?ps = "map_index (\<lambda>value index. jmul rnd value (to_number (js_index (replicate n NaN) index))) a"
  have "0 < length ?ps" using assms by simp
  moreover have "?ps ! 0 = NaN" using assms by simp
  ultimately have "NaN \<in> set ?ps" by (metis nth_mem)
  then show ?thesis by (simp add: dotProduct_foldl foldl_jadd_has_NaN)
qed

lemma vectorNormalize_NaN [simp]: "vectorNormalize rnd (replicate n NaN) = replicate n NaN"
  by (simp add: vectorNormalize_def Let_def)

lemma foldl_squares_NaN [simp]:
  "foldl (\<lambda>sum value. jadd rnd sum (jmul rnd value value)) NaN xs = NaN"
  by (induction xs) simp_all

lemma euclidean_norm_NaN: "0 < n \<Longrightarrow> euclidean_norm rnd (replicate n NaN) = NaN"
  by (cases n) (simp_all add: euclidean_norm_def)

lemma delta_NaN [simp]: "delta rnd (replicate n NaN) r = replicate n NaN"
  by (rule nth_equalityI) (simp_all add: delta_def)

lemma delta_norm_NaN: "0 < n \<Longrightarrow> delta_norm rnd (replicate n NaN) r = NaN"
  by (simp add: delta_norm_def dotProduct_NaN_right)

text \<open>The matrices whose rows all have an entry: those of dimension at least one.\<close>

lemma affine_NaN:
  assumes "list_all (\<lambda>row. row \<noteq> []) A"
  shows "affine rnd A b (replicate n NaN) = replicate (length A) NaN"
proof (rule nth_equalityI)
  show "length (affine rnd A b (replicate n NaN)) = length (replicate (length A) NaN)" by simp
next
  fix i assume "i < length (affine rnd A b (replicate n NaN))"
  then have i: "i < length A" by simp
  with assms have "A ! i \<noteq> []" by (simp add: list_all_length)
  then have "dotProduct rnd (A ! i) (replicate n NaN) = NaN" by (rule dotProduct_NaN_right)
  with i show "affine rnd A b (replicate n NaN) ! i = replicate (length A) NaN ! i"
    by (simp add: affine_def matrixVectorMultiply_def)
qed

lemma map_jmul_NaN [simp]: "map (\<lambda>value. jmul rnd s value) (replicate n NaN) = replicate n NaN"
  by simp

lemma step_NaN:
  assumes "list_all (\<lambda>row. row \<noteq> []) A"
  shows "to_normalize rnd A b (replicate n NaN) = replicate (length A) NaN"
    and "step rnd A b (replicate n NaN) = replicate (length A) NaN"
  by (simp_all add: step_def to_normalize_def affine_NaN [OF assms])

lemma loop_run_NaN:
  assumes "list_all (\<lambda>row. row \<noteq> []) A" and "A \<noteq> []"
  shows "loop_run rnd A b tol n (replicate (length A) NaN) =
     \<lparr>eigenvector = replicate (length A) NaN, iterations = n, converged = False,
      normalized = replicate n (replicate (length A) NaN)\<rparr>"
proof -
  let ?nan = "replicate (length A) NaN"
  have it: "iterate rnd A b j ?nan = ?nan" for j
    by (induction j) (simp_all add: step_NaN [OF assms(1)])
  have "\<not> stops rnd A b tol ?nan"
    using assms(2) by (simp add: stops_def step_NaN [OF assms(1)] delta_norm_NaN)
  then have "loop_run rnd A b tol n ?nan =
     \<lparr>eigenvector = iterate rnd A b n ?nan, iterations = n, converged = False,
      normalized = map (\<lambda>j. to_normalize rnd A b (iterate rnd A b j ?nan)) [0..<n]\<rparr>"
    by (intro loop_run_exhausts) (simp add: it)
  then show ?thesis
    by (simp add: it step_NaN [OF assms(1)] map_replicate_const)
qed

lemma square_rows_nonempty:
  "square_matrix A N \<Longrightarrow> 0 < N \<Longrightarrow> list_all (\<lambda>row. row \<noteq> []) A \<and> A \<noteq> [] \<and> length A = N"
  by (auto simp: square_matrix_def list_all_iff)

text \<open>
  An iteration whose vector to normalize is all NaN ends every later hope of convergence:
  the run continues to the bound and returns NaN in every entry.
\<close>

lemma loop_run_into_NaN:
  assumes A: "list_all (\<lambda>row. row \<noteq> []) A" "A \<noteq> []"
    and v: "to_normalize rnd A b r = v" "vectorNormalize rnd v = replicate (length A) NaN"
  shows "loop_run rnd A b tol (Suc n) r =
     \<lparr>eigenvector = replicate (length A) NaN, iterations = Suc n, converged = False,
      normalized = v # replicate n (replicate (length A) NaN)\<rparr>"
proof -
  have st: "step rnd A b r = replicate (length A) NaN"
    by (simp add: step_def v)
  have "\<not> stops rnd A b tol r"
    using A(2) by (simp add: stops_def st delta_norm_NaN)
  then show ?thesis
    by (simp add: loop_run_Suc st loop_run_NaN [OF A] v)
qed

section \<open>C1: the two-node graph\<close>

text \<open>
  In exact arithmetic a step on the two-node graph swaps the two entries of a unit
  vector whose entries have one sign, and the norm of the update is \<open>\<surd>2 |x - y|\<close>.
\<close>

lemma two_nodes_affine:
  "affine exact two_nodes [Fin 0, Fin 0] [Fin x, Fin y] = [Fin y, Fin x]"
  by (simp add: affine_def matrixVectorMultiply_def dotProduct_def map_index_def reduce_index_def
      js_index_def two_nodes_def exact_def)

lemma two_nodes_step:
  assumes u: "x * x + y * y = 1" and p: "0 < x * y"
  shows "to_normalize exact two_nodes [Fin 0, Fin 0] [Fin x, Fin y] = [Fin y, Fin x]"
    and "step exact two_nodes [Fin 0, Fin 0] [Fin x, Fin y] = [Fin y, Fin x]"
proof -
  have "0 < y * x + x * y" using p by (simp add: mult.commute)
  then have s: "sgn (y * x + x * y) = 1" by simp
  have mu: "jsign (dotProduct exact [Fin y, Fin x] [Fin x, Fin y]) = Fin 1"
    using p by (simp add: dotProduct_def reduce_index_def js_index_def exact_def sgn_1_pos)
  show v: "to_normalize exact two_nodes [Fin 0, Fin 0] [Fin x, Fin y] = [Fin y, Fin x]"
    by (simp add: to_normalize_def two_nodes_affine mu) (simp add: exact_def)
  have "y * y + x * x = 1" using u by (simp add: add.commute)
  then have "euclidean_norm exact [Fin y, Fin x] = Fin 1"
    by (simp add: euclidean_norm_def exact_def)
  then show "step exact two_nodes [Fin 0, Fin 0] [Fin x, Fin y] = [Fin y, Fin x]"
    by (simp add: step_def v vectorNormalize_def exact_def)
qed

lemma two_nodes_delta_norm:
  "delta_norm exact [Fin y, Fin x] [Fin x, Fin y] = Fin (sqrt 2 * \<bar>x - y\<bar>)"
proof -
  have "(y - x) * (y - x) + (x - y) * (x - y) = 2 * (x - y)\<^sup>2"
    by (simp add: power2_eq_square algebra_simps)
  then have "sqrt ((y - x) * (y - x) + (x - y) * (x - y)) = sqrt 2 * \<bar>x - y\<bar>"
    by (simp add: real_sqrt_mult)
  moreover have "\<not> (y - x) * (y - x) + (x - y) * (x - y) < 0"
    by (simp add: not_less)
  ultimately show ?thesis
    by (simp add: delta_norm_def delta_def dotProduct_def map_index_def reduce_index_def
        js_index_def exact_def)
qed

lemma two_nodes_stops:
  assumes "x * x + y * y = 1" and "0 < x * y"
  shows "stops exact two_nodes [Fin 0, Fin 0] default_tol [Fin x, Fin y] \<longleftrightarrow>
         sqrt 2 * \<bar>x - y\<bar> < 1 / 100"
  by (simp add: stops_def two_nodes_step [OF assms] two_nodes_delta_norm default_tol_def)

text \<open>Away from the diagonal the iterates alternate for as long as the loop runs.\<close>

lemma two_nodes_alternates:
  assumes u: "x * x + y * y = 1" and p: "0 < x * y" and far: "\<not> sqrt 2 * \<bar>x - y\<bar> < 1 / 100"
  shows "loop exact two_nodes [Fin 0, Fin 0] default_tol (2 * k) [Fin x, Fin y] = [Fin x, Fin y]"
proof (induction k)
  case 0
  show ?case by simp
next
  case (Suc k)
  have u': "y * y + x * x = 1" and p': "0 < y * x" and far': "\<not> sqrt 2 * \<bar>y - x\<bar> < 1 / 100"
    using u p far by (simp_all add: add.commute mult.commute abs_minus_commute)
  have ns: "\<not> stops exact two_nodes [Fin 0, Fin 0] default_tol [Fin x, Fin y]"
    using two_nodes_stops [OF u p] far by blast
  have ns': "\<not> stops exact two_nodes [Fin 0, Fin 0] default_tol [Fin y, Fin x]"
    using two_nodes_stops [OF u' p'] far' by blast
  have "loop exact two_nodes [Fin 0, Fin 0] default_tol (Suc (Suc (2 * k))) [Fin x, Fin y] =
        loop exact two_nodes [Fin 0, Fin 0] default_tol (2 * k) [Fin x, Fin y]"
    by (simp add: loop_Suc ns ns' two_nodes_step [OF u p] two_nodes_step [OF u' p'])
  with Suc show ?case by simp
qed

lemma unit_vector_normalized:
  "x * x + y * y = 1 \<Longrightarrow> vectorNormalize exact [Fin x, Fin y] = [Fin x, Fin y]"
  by (simp add: vectorNormalize_def euclidean_norm_def exact_def)

lemma near_diagonal:
  assumes u: "x * x + y * y = 1" and p: "0 < x * y" and c: "sqrt 2 * \<bar>x - y\<bar> < 1 / 100"
  shows "equal_up_to_sign (1 / 100) [Fin y, Fin x] [1 / sqrt 2, 1 / sqrt 2]"
proof -
  define r where "r = sqrt 2"
  have r2: "r * r = 2" and r1: "1 < r"
    by (simp_all add: r_def)
  have half: "1 / sqrt 2 = r / 2"
    using r2 r1 by (simp add: r_def field_simps)
  define d where "d = x - y"
  define t where "t = \<bar>x + y\<bar>"
  have "1 * \<bar>d\<bar> \<le> r * \<bar>d\<bar>" using r1 by (intro mult_right_mono) simp_all
  with c have d: "\<bar>d\<bar> < 1 / 100" by (simp add: r_def d_def)
  then have "\<bar>d\<bar> * \<bar>d\<bar> < (1 / 100) * (1 / 100)"
    by (intro mult_strict_mono') simp_all
  then have d2: "d * d < 1 / 10000" by (simp add: abs_mult_self_eq)
  have t2: "t * t = 2 - d * d"
    using u by (simp add: t_def d_def abs_mult_self_eq algebra_simps)
  have t0: "0 \<le> t" by (simp add: t_def)
  have "t\<^sup>2 \<le> 2" using t2 by (simp add: power2_eq_square)
  then have upper: "t \<le> r" unfolding r_def by (rule real_le_rsqrt)
  have "(r - 1 / 100) * (r - 1 / 100) = 2 - r / 50 + 1 / 10000"
    using r2 by (simp add: algebra_simps)
  also have "\<dots> < 2 - d * d" using r1 d2 by simp
  finally have "(r - 1 / 100)\<^sup>2 < t\<^sup>2" using t2 by (simp add: power2_eq_square)
  then have lower: "r - 1 / 100 < t" using t0 by (rule power2_less_imp_less)
  have pos: "(0 < x \<and> 0 < y) \<or> (x < 0 \<and> y < 0)"
    using p by (simp add: zero_less_mult_iff)
  then show ?thesis
  proof
    assume "0 < x \<and> 0 < y"
    then have "t = x + y" by (simp add: t_def)
    with upper lower d have "\<bar>y - r / 2\<bar> < 1 / 100 \<and> \<bar>x - r / 2\<bar> < 1 / 100"
      unfolding d_def by linarith
    then show ?thesis by (simp add: equal_up_to_sign_def half)
  next
    assume "x < 0 \<and> y < 0"
    then have "t = - (x + y)" by (simp add: t_def)
    with upper lower d have "\<bar>y + r / 2\<bar> < 1 / 100 \<and> \<bar>x + r / 2\<bar> < 1 / 100"
      unfolding d_def by linarith
    then show ?thesis by (simp add: equal_up_to_sign_def half)
  qed
qed




section \<open>C2: unit norm of the result\<close>



text \<open>
  With the finite range of binary64 the claim fails as stated. For the one-node graph of
  weight \<open>2\<^sup>6\<^sup>0\<^sup>0\<close> and the draw \<open>[1]\<close> every operation of the call is exact in
  binary64 except the square \<open>2\<^sup>6\<^sup>0\<^sup>0 * 2\<^sup>6\<^sup>0\<^sup>0\<close>, which overflows to \<open>Infinity\<close>: the norm is
  \<open>Infinity\<close> and the normalized vector is \<open>[0]\<close>.
\<close>

lemma binary64_overflow_gt_1: "1 < binary64_overflow"
  by (simp add: binary64_overflow_def)

lemma binary64_range_small [simp]:
  "binary64_range 0 = Fin 0" "binary64_range 1 = Fin 1" "binary64_range (- 1) = Fin (- 1)"
  using binary64_overflow_gt_1 by (simp_all add: binary64_range_def)

lemma binary64_range_finite:
  "- binary64_overflow < x \<Longrightarrow> x < binary64_overflow \<Longrightarrow> binary64_range x = Fin x"
  by (simp add: binary64_range_def)

lemma binary64_range_overflow: "binary64_overflow \<le> x \<Longrightarrow> binary64_range x = PInf"
  by (simp add: binary64_range_def)

lemma overflow_run:
  assumes "0 < B" and "B < binary64_overflow" and "binary64_overflow \<le> B * B"
  shows "powerIteration binary64_range [[Fin B]] [Fin 0] 1 default_tol [Fin 1] = [Fin 0]"
    and "normalized (powerIteration_run binary64_range [[Fin B]] [Fin 0] 1 default_tol [Fin 1])
     = [[Fin 1], [Fin B]]"
    and "\<not> zero_vec [Fin B]"
proof -
  have "- binary64_overflow < B" using assms binary64_overflow_gt_1 by simp
  then have B: "binary64_range B = Fin B"
    using assms(2) by (rule binary64_range_finite)
  have BB: "binary64_range (B * B) = PInf"
    using assms(3) by (rule binary64_range_overflow)
  show "powerIteration binary64_range [[Fin B]] [Fin 0] 1 default_tol [Fin 1] = [Fin 0]"
    using assms(1) by (simp add: run_defs loop_Suc B BB)
  show "normalized (powerIteration_run binary64_range [[Fin B]] [Fin 0] 1 default_tol [Fin 1])
     = [[Fin 1], [Fin B]]"
    using assms(1) by (simp add: run_defs loop_run_Suc B BB)
  show "\<not> zero_vec [Fin B]"
    using assms(1) by (simp add: zero_vec_def)
qed


section \<open>C3: tolerance zero\<close>

text \<open>The square root is never below zero, provided rounding sends no non-negative real below zero.\<close>

lemma jsqrt_not_negative:
  "rounds_nonneg rnd \<Longrightarrow> \<not> jlt (jsqrt rnd s) (Fin 0)"
  by (cases s) (auto simp: rounds_nonneg_def)

lemma never_stops_at_tolerance_zero:
  "rounds_nonneg rnd \<Longrightarrow> \<not> stops rnd A b (Fin 0) r"
  unfolding stops_def delta_norm_def by (rule jsqrt_not_negative)

text \<open>
  Claim C3, as amended. With \<open>tolerance = 0\<close> the test of step 5 is \<open>norm < 0\<close>, which
  no norm satisfies: \<open>powerIteration\<close> runs all \<open>maxIterations\<close> iterations and returns the
  last iterate, also when an update is exactly the zero vector. This holds for every rounding
  that sends no non-negative real below zero, as rounding to nearest does.
\<close>

theorem tolerance_zero_runs_all_iterations:
  assumes "rounds_nonneg rnd"
  shows "iterations (powerIteration_run rnd A b nIter (Fin 0) draw) = nIter \<and>
         \<not> converged (powerIteration_run rnd A b nIter (Fin 0) draw) \<and>
         powerIteration rnd A b nIter (Fin 0) draw = iterate rnd A b nIter (vectorNormalize rnd draw)"
proof -
  have "loop_run rnd A b (Fin 0) nIter (vectorNormalize rnd draw) =
      \<lparr>eigenvector = iterate rnd A b nIter (vectorNormalize rnd draw), iterations = nIter,
       converged = False,
       normalized = map (\<lambda>j. to_normalize rnd A b (iterate rnd A b j (vectorNormalize rnd draw)))
         [0..<nIter]\<rparr>"
    by (rule loop_run_exhausts) (rule never_stops_at_tolerance_zero [OF assms])
  then show ?thesis
    by (simp add: powerIteration_run_def powerIteration_def Let_def
        eigenvector_loop_run [symmetric])
qed

text \<open>C3 in exact arithmetic, on the one-node graph of weight 1: two iterations run.\<close>

theorem tolerance_zero_runs_all_iterations_witness:
  "rounds_nonneg exact \<and>
   iterations (powerIteration_run exact [[Fin 1]] [Fin 0] 2 (Fin 0) [Fin 1]) = 2 \<and>
   \<not> converged (powerIteration_run exact [[Fin 1]] [Fin 0] 2 (Fin 0) [Fin 1])"
proof -
  have h: "rounds_nonneg exact"
    by (simp add: rounds_nonneg_def exact_def)
  from tolerance_zero_runs_all_iterations [OF h, of "[[Fin 1]]" "[Fin 0]" 2 "[Fin 1]"] h
  show ?thesis by simp
qed

text \<open>
  Counterexample to C3 as stated. On the one-node graph of weight 1 with the draw \<open>[1]\<close>
  the update of the first iteration is exactly \<open>[0]\<close>, its norm is 0, and the call with
  \<open>tolerance = 0\<close> and \<open>maxIterations = 2\<close> does not stop there: it runs both iterations and
  leaves the loop unconverged.
\<close>

theorem zero_delta_does_not_stop_at_tolerance_zero:
  "delta exact (step exact [[Fin 1]] [Fin 0] (vectorNormalize exact [Fin 1]))
     (vectorNormalize exact [Fin 1]) = [Fin 0] \<and>
   delta_norm exact (step exact [[Fin 1]] [Fin 0] (vectorNormalize exact [Fin 1]))
     (vectorNormalize exact [Fin 1]) = Fin 0 \<and>
   iterations (powerIteration_run exact [[Fin 1]] [Fin 0] 2 (Fin 0) [Fin 1]) = 2 \<and>
   \<not> converged (powerIteration_run exact [[Fin 1]] [Fin 0] 2 (Fin 0) [Fin 1])"
  by (simp add: run_defs loop_run_Suc exact_def)

section \<open>C4: early return and exhausted iterations\<close>

text \<open>
  Claim C4. Let \<open>r\<^sub>0\<close> be the normalized draw and \<open>r\<^sub>j\<close> the iterates. If iteration
  \<open>k < maxIterations\<close> is the first whose update has a norm strictly below the tolerance,
  \<open>powerIteration\<close> returns \<open>r\<^sub>k\<^sub>+\<^sub>1\<close> after \<open>k + 1\<close> iterations; if no iteration below
  \<open>maxIterations\<close> meets the test, it returns \<open>r\<close> of index \<open>maxIterations\<close> after exactly
  \<open>maxIterations\<close> iterations. The result is the vector alone: the one-node graph of
  weight 1 returns \<open>[1]\<close> both when it converges (tolerance 0.01) and when it exhausts its
  single iteration (tolerance 0).
\<close>

theorem powerIteration_stops_or_exhausts:
  "(k < nIter \<and>
    (\<forall>j<k. \<not> stops rnd A b tol (iterate rnd A b j (vectorNormalize rnd draw))) \<and>
    stops rnd A b tol (iterate rnd A b k (vectorNormalize rnd draw)) \<longrightarrow>
      powerIteration rnd A b nIter tol draw = iterate rnd A b (Suc k) (vectorNormalize rnd draw) \<and>
      iterations (powerIteration_run rnd A b nIter tol draw) = Suc k \<and>
      converged (powerIteration_run rnd A b nIter tol draw)) \<and>
   ((\<forall>j<nIter. \<not> stops rnd A b tol (iterate rnd A b j (vectorNormalize rnd draw))) \<longrightarrow>
      powerIteration rnd A b nIter tol draw = iterate rnd A b nIter (vectorNormalize rnd draw) \<and>
      iterations (powerIteration_run rnd A b nIter tol draw) = nIter \<and>
      \<not> converged (powerIteration_run rnd A b nIter tol draw)) \<and>
   powerIteration exact [[Fin 1]] [Fin 0] 1 (Fin (1 / 100)) [Fin 1] =
     powerIteration exact [[Fin 1]] [Fin 0] 1 (Fin 0) [Fin 1] \<and>
   converged (powerIteration_run exact [[Fin 1]] [Fin 0] 1 (Fin (1 / 100)) [Fin 1]) \<and>
   \<not> converged (powerIteration_run exact [[Fin 1]] [Fin 0] 1 (Fin 0) [Fin 1])"
proof (intro conjI impI)
  let ?r0 = "vectorNormalize rnd draw"
  let ?run = "powerIteration_run rnd A b nIter tol draw"
  have run: "?run = (loop_run rnd A b tol nIter ?r0)
      \<lparr>normalized := draw # normalized (loop_run rnd A b tol nIter ?r0)\<rparr>"
    by (simp add: powerIteration_run_def Let_def)
  have res: "powerIteration rnd A b nIter tol draw = eigenvector (loop_run rnd A b tol nIter ?r0)"
    by (simp add: powerIteration_def eigenvector_loop_run)
  {
    assume "k < nIter \<and> (\<forall>j<k. \<not> stops rnd A b tol (iterate rnd A b j ?r0)) \<and>
      stops rnd A b tol (iterate rnd A b k ?r0)"
    then have "loop_run rnd A b tol nIter ?r0 =
      \<lparr>eigenvector = iterate rnd A b (Suc k) ?r0, iterations = Suc k, converged = True,
       normalized = map (\<lambda>j. to_normalize rnd A b (iterate rnd A b j ?r0)) [0..<Suc k]\<rparr>"
      by (intro loop_run_stops) auto
    then show "powerIteration rnd A b nIter tol draw = iterate rnd A b (Suc k) ?r0"
      and "iterations ?run = Suc k" and "converged ?run"
      unfolding run res by simp_all
  }
  {
    assume "\<forall>j<nIter. \<not> stops rnd A b tol (iterate rnd A b j ?r0)"
    then have "loop_run rnd A b tol nIter ?r0 =
      \<lparr>eigenvector = iterate rnd A b nIter ?r0, iterations = nIter, converged = False,
       normalized = map (\<lambda>j. to_normalize rnd A b (iterate rnd A b j ?r0)) [0..<nIter]\<rparr>"
      by (intro loop_run_exhausts) auto
    then show "powerIteration rnd A b nIter tol draw = iterate rnd A b nIter ?r0"
      and "iterations ?run = nIter" and "\<not> converged ?run"
      unfolding run res by simp_all
  }
  show "powerIteration exact [[Fin 1]] [Fin 0] 1 (Fin (1 / 100)) [Fin 1] =
     powerIteration exact [[Fin 1]] [Fin 0] 1 (Fin 0) [Fin 1]"
    by (simp add: run_defs loop_Suc exact_def)
  show "converged (powerIteration_run exact [[Fin 1]] [Fin 0] 1 (Fin (1 / 100)) [Fin 1])"
    by (simp add: run_defs loop_run_Suc exact_def)
  show "\<not> converged (powerIteration_run exact [[Fin 1]] [Fin 0] 1 (Fin 0) [Fin 1])"
    by (simp add: run_defs loop_run_Suc exact_def)
qed

text \<open>
  C4 on the one-node graph of weight 1 and the draw \<open>[1]\<close>, whose iterates are all
  \<open>[1]\<close>: with tolerance 0.01 the first iteration stops the call of three iterations; with
  tolerance 0 no iteration does, and the call of two iterations runs both.
\<close>

theorem powerIteration_stops_or_exhausts_witness:
  "stops exact [[Fin 1]] [Fin 0] (Fin (1 / 100)) (vectorNormalize exact [Fin 1]) \<and>
   powerIteration exact [[Fin 1]] [Fin 0] 3 (Fin (1 / 100)) [Fin 1] = [Fin 1] \<and>
   iterations (powerIteration_run exact [[Fin 1]] [Fin 0] 3 (Fin (1 / 100)) [Fin 1]) = 1 \<and>
   converged (powerIteration_run exact [[Fin 1]] [Fin 0] 3 (Fin (1 / 100)) [Fin 1]) \<and>
   \<not> stops exact [[Fin 1]] [Fin 0] (Fin 0) (iterate exact [[Fin 1]] [Fin 0] 0 (vectorNormalize exact [Fin 1])) \<and>
   \<not> stops exact [[Fin 1]] [Fin 0] (Fin 0) (iterate exact [[Fin 1]] [Fin 0] 1 (vectorNormalize exact [Fin 1])) \<and>
   powerIteration exact [[Fin 1]] [Fin 0] 2 (Fin 0) [Fin 1] = [Fin 1] \<and>
   iterations (powerIteration_run exact [[Fin 1]] [Fin 0] 2 (Fin 0) [Fin 1]) = 2 \<and>
   \<not> converged (powerIteration_run exact [[Fin 1]] [Fin 0] 2 (Fin 0) [Fin 1])"
proof -
  let ?A = "[[Fin 1]]" and ?b = "[Fin 0]"
  have r0: "vectorNormalize exact [Fin 1] = [Fin 1]"
    by (simp add: vectorNormalize_def euclidean_norm_def exact_def)
  have st: "step exact ?A ?b [Fin 1] = [Fin 1]"
    by (simp add: run_defs exact_def)
  have it: "iterate exact ?A ?b j [Fin 1] = [Fin 1]" for j
    by (induction j) (simp_all add: st)
  have yes: "stops exact ?A ?b (Fin (1 / 100)) [Fin 1]"
    unfolding stops_def st by (simp add: run_defs exact_def)
  have no: "\<not> stops exact ?A ?b (Fin 0) [Fin 1]"
    unfolding stops_def st by (simp add: run_defs exact_def)
  from powerIteration_stops_or_exhausts [of 0 3 exact ?A ?b "Fin (1 / 100)" "[Fin 1]"]
    powerIteration_stops_or_exhausts [of 0 2 exact ?A ?b "Fin 0" "[Fin 1]"]
  show ?thesis
    unfolding r0 by (simp add: it yes no st)
qed

section \<open>C5: no iterations\<close>



section \<open>C6: the graph without edges\<close>

lemma foldl_jadd_zeros:
  "rnd 0 = Fin 0 \<Longrightarrow> foldl (jadd rnd) (Fin 0) (replicate n (Fin 0)) = Fin 0"
  by (induction n) simp_all

lemma dotProduct_zero_left:
  assumes rnd: "rnd 0 = Fin 0" and r: "finite_vec r" "n \<le> length r"
  shows "dotProduct rnd (replicate n (Fin 0)) r = Fin 0"
proof -
  from r obtain rs where rs: "r = map Fin rs" by (auto simp: finite_vec_conv)
  have "map_index (\<lambda>value index. jmul rnd value (to_number (js_index r index))) (replicate n (Fin 0))
      = replicate n (Fin 0)"
    using r(2) by (intro nth_equalityI) (simp_all add: js_index_def rs rnd)
  then show ?thesis
    by (simp add: dotProduct_foldl foldl_jadd_zeros [of rnd, OF rnd])
qed

lemma affine_zero:
  assumes rnd: "rnd 0 = Fin 0" and r: "finite_vec r" "N \<le> length r"
  shows "affine rnd (zero_matrix N) (zero_vector N) r = zero_vector N"
  by (rule nth_equalityI)
     (simp_all add: affine_def matrixVectorMultiply_def zero_matrix_def zero_vector_def
        js_index_def dotProduct_zero_left [of rnd, OF assms] rnd)

lemma to_normalize_zero:
  assumes rnd: "rnd 0 = Fin 0" and r: "finite_vec r" "N \<le> length r"
  shows "to_normalize rnd (zero_matrix N) (zero_vector N) r = zero_vector N"
  unfolding to_normalize_def affine_zero [of rnd, OF assms]
  by (simp add: zero_vector_def dotProduct_zero_left [of rnd, OF assms] rnd)

lemma foldl_squares_zeros:
  "rnd 0 = Fin 0 \<Longrightarrow>
   foldl (\<lambda>sum value. jadd rnd sum (jmul rnd value value)) (Fin 0) (replicate n (Fin 0)) = Fin 0"
  by (induction n) simp_all

lemma euclidean_norm_zero: "rnd 0 = Fin 0 \<Longrightarrow> euclidean_norm rnd (zero_vector N) = Fin 0"
  by (simp add: euclidean_norm_def zero_vector_def foldl_squares_zeros)

lemma vectorNormalize_zero:
  "rnd 0 = Fin 0 \<Longrightarrow> vectorNormalize rnd (zero_vector N) = replicate N NaN"
  by (simp add: vectorNormalize_def euclidean_norm_zero) (simp add: zero_vector_def)

text \<open>
  Claim C6, as amended. For \<open>N \<ge> 1\<close>, the \<open>N \<times> N\<close> zero matrix, the zero bias and a draw
  whose normalization is finite, the first iteration hands the zero vector to
  \<open>vectorNormalize\<close>, whose norm is 0: every entry is \<open>0/0\<close>, NaN. Every later iteration
  hands it the vector of NaNs, whose norm is NaN, not zero. The call runs all its iterations
  and returns NaN in every entry. This holds for every rounding that keeps zero.
\<close>

theorem zero_graph_divides_by_zero_once:
  assumes "rnd 0 = Fin 0" and "0 < N" and "length draw = N"
    and "finite_vec (vectorNormalize rnd draw)"
  shows "normalized (powerIteration_run rnd (zero_matrix N) (zero_vector N) (Suc n) tol draw)
           = draw # zero_vector N # replicate n (replicate N NaN) \<and>
         zero_vec (zero_vector N) \<and>
         euclidean_norm rnd (zero_vector N) = Fin 0 \<and>
         vectorNormalize rnd (zero_vector N) = replicate N NaN \<and>
         \<not> zero_vec (replicate N NaN) \<and>
         euclidean_norm rnd (replicate N NaN) = NaN \<and>
         iterations (powerIteration_run rnd (zero_matrix N) (zero_vector N) (Suc n) tol draw) = Suc n \<and>
         powerIteration rnd (zero_matrix N) (zero_vector N) (Suc n) tol draw = replicate N NaN"
proof -
  let ?A = "zero_matrix N" and ?b = "zero_vector N" and ?r0 = "vectorNormalize rnd draw"
  have len: "length ?A = N" by (simp add: zero_matrix_def)
  have rows: "list_all (\<lambda>row. row \<noteq> []) ?A" and ne: "?A \<noteq> []"
    using assms(2) by (auto simp: zero_matrix_def list_all_iff)
  have r0: "N \<le> length ?r0" using assms(3) by simp
  have v: "to_normalize rnd ?A ?b ?r0 = ?b"
    using assms(1,4) r0 by (rule to_normalize_zero)
  have nan: "vectorNormalize rnd ?b = replicate (length ?A) NaN"
    using assms(1) by (simp add: vectorNormalize_zero len)
  from loop_run_into_NaN [OF rows ne v nan, of tol n]
  have run: "loop_run rnd ?A ?b tol (Suc n) ?r0 =
     \<lparr>eigenvector = replicate N NaN, iterations = Suc n, converged = False,
      normalized = ?b # replicate n (replicate N NaN)\<rparr>"
    by (simp add: len)
  have 1: "normalized (powerIteration_run rnd ?A ?b (Suc n) tol draw)
           = draw # ?b # replicate n (replicate N NaN)"
    and 2: "iterations (powerIteration_run rnd ?A ?b (Suc n) tol draw) = Suc n"
    by (simp_all add: powerIteration_run_def Let_def run)
  have 3: "powerIteration rnd ?A ?b (Suc n) tol draw = replicate N NaN"
    by (simp add: powerIteration_def eigenvector_loop_run [symmetric] run)
  have 4: "zero_vec ?b"
    by (simp add: zero_vec_def zero_vector_def list_all_iff)
  have 5: "\<not> zero_vec (replicate N NaN)"
    using assms(2) by (simp add: zero_vec_def list_all_iff)
  from 1 2 3 4 5 euclidean_norm_zero [of rnd, OF assms(1)] vectorNormalize_zero [of rnd, OF assms(1)]
    euclidean_norm_NaN [OF assms(2)]
  show ?thesis by simp
qed

text \<open>C6 in exact arithmetic, for the graph of one node, the draw \<open>[1]\<close> and two iterations.\<close>

theorem zero_graph_divides_by_zero_once_witness:
  "exact 0 = Fin 0 \<and> finite_vec (vectorNormalize exact [Fin 1]) \<and>
   normalized (powerIteration_run exact (zero_matrix 1) (zero_vector 1) 2 default_tol [Fin 1])
     = [[Fin 1], [Fin 0], [NaN]] \<and>
   powerIteration exact (zero_matrix 1) (zero_vector 1) 2 default_tol [Fin 1] = [NaN]"
proof -
  have 1: "exact 0 = Fin 0" by (simp add: exact_def)
  have 2: "finite_vec (vectorNormalize exact [Fin 1])"
    by (simp add: finite_vec_def vectorNormalize_def euclidean_norm_def exact_def)
  have 3: "length [Fin 1] = 1" by simp
  from zero_graph_divides_by_zero_once [of exact, OF 1 zero_less_one 3 2, of 1 default_tol] 1 2
  show ?thesis by (simp add: numeral_2_eq_2 zero_vector_def)
qed

text \<open>
  Counterexample to C6 as stated. For the graph of one node without edge, the zero bias,
  the draw \<open>[1]\<close> and two iterations, the second iteration hands \<open>[NaN]\<close> to
  \<open>vectorNormalize\<close>: that vector is not the zero vector and its norm is NaN, not zero.
\<close>

theorem second_iteration_normalizes_NaN:
  "normalized (powerIteration_run exact [[Fin 0]] [Fin 0] 2 default_tol [Fin 1])
     = [[Fin 1], [Fin 0], [NaN]] \<and>
   \<not> zero_vec [NaN] \<and>
   euclidean_norm exact [NaN] = NaN"
  by (simp add: run_defs loop_run_Suc exact_def zero_vec_def)

section \<open>C7: doping the center of the star\<close>

lemmas vec_defs = affine_def matrixVectorMultiply_def dotProduct_def map_index_def
  reduce_index_def js_index_def exact_def

text \<open>
  A vector of the star that is symmetric in the leaves: the center entry \<open>x\<close> and the
  leaf entry \<open>l\<close>.
\<close>

lemma star_affine:
  "affine exact star [Fin d, Fin 0, Fin 0, Fin 0, Fin 0] [Fin x, Fin l, Fin l, Fin l, Fin l] =
     [Fin (4 * l + d), Fin x, Fin x, Fin x, Fin x]"
  by (simp add: vec_defs star_def)

lemma star_mu:
  "dotProduct exact [Fin y, Fin x, Fin x, Fin x, Fin x] [Fin x, Fin l, Fin l, Fin l, Fin l] =
     Fin (y * x + 4 * (x * l))"
  by (simp add: vec_defs)

lemma star_norm:
  "euclidean_norm exact [Fin y, Fin x, Fin x, Fin x, Fin x] = Fin (sqrt (y * y + 4 * (x * x)))"
proof -
  have "\<not> y * y + 4 * (x * x) < 0" by (simp add: not_less)
  then show ?thesis by (simp add: euclidean_norm_def exact_def)
qed

lemma star_step:
  assumes x: "0 < x" and l: "0 < l" and d: "0 \<le> d"
  defines "n \<equiv> sqrt ((4 * l + d) * (4 * l + d) + 4 * (x * x))"
  shows "to_normalize exact star [Fin d, Fin 0, Fin 0, Fin 0, Fin 0] [Fin x, Fin l, Fin l, Fin l, Fin l]
           = [Fin (4 * l + d), Fin x, Fin x, Fin x, Fin x]"
    and "step exact star [Fin d, Fin 0, Fin 0, Fin 0, Fin 0] [Fin x, Fin l, Fin l, Fin l, Fin l]
           = [Fin ((4 * l + d) / n), Fin (x / n), Fin (x / n), Fin (x / n), Fin (x / n)]"
    and "0 < n" and "n * n = (4 * l + d) * (4 * l + d) + 4 * (x * x)"
proof -
  have y: "0 < 4 * l + d" using l d by simp
  have "0 < (4 * l + d) * x" using y x by (rule mult_pos_pos)
  moreover have "0 < 4 * (x * l)" using x l by simp
  ultimately have "0 < (4 * l + d) * x + 4 * (x * l)" by (rule add_pos_pos)
  then have s: "sgn ((4 * l + d) * x + 4 * (x * l)) = 1" by simp
  show v: "to_normalize exact star [Fin d, Fin 0, Fin 0, Fin 0, Fin 0] [Fin x, Fin l, Fin l, Fin l, Fin l]
           = [Fin (4 * l + d), Fin x, Fin x, Fin x, Fin x]"
    unfolding to_normalize_def star_affine star_mu by (simp add: s) (simp add: exact_def)
  have "0 < (4 * l + d) * (4 * l + d)" using y y by (rule mult_pos_pos)
  moreover have "0 < 4 * (x * x)" using x by simp
  ultimately have S: "0 < (4 * l + d) * (4 * l + d) + 4 * (x * x)" by (rule add_pos_pos)
  then show n: "0 < n" by (simp add: n_def)
  show "n * n = (4 * l + d) * (4 * l + d) + 4 * (x * x)"
    using S by (simp add: n_def)
  from n have "n \<noteq> 0" by simp
  then show "step exact star [Fin d, Fin 0, Fin 0, Fin 0, Fin 0] [Fin x, Fin l, Fin l, Fin l, Fin l]
           = [Fin ((4 * l + d) / n), Fin (x / n), Fin (x / n), Fin (x / n), Fin (x / n)]"
    unfolding step_def v vectorNormalize_def Let_def star_norm n_def [symmetric]
    by (simp add: exact_def)
qed

text \<open>
  The doped step keeps the set of unit vectors \<open>(x, l, l, l, l)\<close> with positive entries and
  \<open>2 l \<le> x \<le> 4 l\<close>, and sends it into the part where \<open>2 l < x\<close>.
\<close>

lemma star_doped_step:
  assumes x: "0 < x" and l: "0 < l" and u: "x * x + 4 * (l * l) = 1"
    and hi: "x \<le> 4 * l" and lo: "2 * l \<le> x"
  shows "\<exists>x' l'. step exact star doping [Fin x, Fin l, Fin l, Fin l, Fin l] =
            [Fin x', Fin l', Fin l', Fin l', Fin l'] \<and>
          0 < x' \<and> 0 < l' \<and> x' * x' + 4 * (l' * l') = 1 \<and> x' \<le> 4 * l' \<and> 2 * l' < x'"
proof -
  define n where "n = sqrt ((4 * l + 1) * (4 * l + 1) + 4 * (x * x))"
  have st: "step exact star doping [Fin x, Fin l, Fin l, Fin l, Fin l] =
      [Fin ((4 * l + 1) / n), Fin (x / n), Fin (x / n), Fin (x / n), Fin (x / n)]"
    and n: "0 < n" and nn: "n * n = (4 * l + 1) * (4 * l + 1) + 4 * (x * x)"
    unfolding doping_def n_def using star_step [OF x l, of 1] by simp_all
  have "(2 * l) * (2 * l) \<le> x * x" using lo l by (intro mult_mono) simp_all
  with u have xx: "1 \<le> 2 * (x * x)" by simp
  have half: "1 \<le> 2 * x"
  proof (rule ccontr)
    assume "\<not> 1 \<le> 2 * x"
    then have "x < 1 / 2" by simp
    then have "x * x < (1 / 2) * (1 / 2)" using x by (intro mult_strict_mono) simp_all
    with xx show False by simp
  qed
  have "0 < l * l" using l by simp
  with u have x1: "x * x < 1" by simp
  have one: "x < 1"
  proof (rule ccontr)
    assume "\<not> x < 1"
    then have "1 * 1 \<le> x * x" by (intro mult_mono) simp_all
    with x1 show False by simp
  qed
  have a: "4 * l + 1 \<le> 4 * x" using lo half by simp
  have b: "2 * x < 4 * l + 1" using hi one by simp
  have 1: "0 < (4 * l + 1) / n" using l n by simp
  have 2: "0 < x / n" using x n by simp
  have "((4 * l + 1) / n) * ((4 * l + 1) / n) + 4 * ((x / n) * (x / n)) =
      ((4 * l + 1) * (4 * l + 1) + 4 * (x * x)) / (n * n)"
    using n by (simp add: field_simps)
  also have "\<dots> = (n * n) / (n * n)" by (simp only: nn)
  also have "\<dots> = 1" using n by simp
  finally have 3: "((4 * l + 1) / n) * ((4 * l + 1) / n) + 4 * ((x / n) * (x / n)) = 1" .
  have 4: "(4 * l + 1) / n \<le> 4 * (x / n)"
    using a n by (simp add: divide_right_mono)
  have 5: "2 * (x / n) < (4 * l + 1) / n"
    using b n by (simp add: divide_strict_right_mono)
  show ?thesis
    by (rule exI [of _ "(4 * l + 1) / n"], rule exI [of _ "x / n"]) (intro conjI st 1 2 3 4 5)
qed

lemma star_doped_loop:
  "0 < x \<Longrightarrow> 0 < l \<Longrightarrow> x * x + 4 * (l * l) = 1 \<Longrightarrow> x \<le> 4 * l \<Longrightarrow> 2 * l \<le> x \<Longrightarrow>
   \<exists>x' l'. loop exact star doping tol (Suc n) [Fin x, Fin l, Fin l, Fin l, Fin l] =
            [Fin x', Fin l', Fin l', Fin l', Fin l'] \<and>
          0 < x' \<and> 0 < l' \<and> x' * x' + 4 * (l' * l') = 1 \<and> 2 * l' < x'"
proof (induction n arbitrary: x l)
  case 0
  from star_doped_step [OF 0]
  obtain x' l' where st: "step exact star doping [Fin x, Fin l, Fin l, Fin l, Fin l] =
            [Fin x', Fin l', Fin l', Fin l', Fin l']"
    and inv: "0 < x'" "0 < l'" "x' * x' + 4 * (l' * l') = 1" "2 * l' < x'"
    by blast
  have "loop exact star doping tol (Suc 0) [Fin x, Fin l, Fin l, Fin l, Fin l] =
      [Fin x', Fin l', Fin l', Fin l', Fin l']"
    by (simp add: loop_Suc st)
  then show ?case
    by (rule_tac x = x' in exI, rule_tac x = l' in exI) (intro conjI inv)
next
  case (Suc n)
  from star_doped_step [OF Suc.prems]
  obtain x' l' where st: "step exact star doping [Fin x, Fin l, Fin l, Fin l, Fin l] =
            [Fin x', Fin l', Fin l', Fin l', Fin l']"
    and inv: "0 < x'" "0 < l'" "x' * x' + 4 * (l' * l') = 1" "x' \<le> 4 * l'" "2 * l' < x'"
    by blast
  from inv have inv': "2 * l' \<le> x'" by simp
  show ?case
  proof (cases "stops exact star doping tol [Fin x, Fin l, Fin l, Fin l, Fin l]")
    case True
    then have "loop exact star doping tol (Suc (Suc n)) [Fin x, Fin l, Fin l, Fin l, Fin l] =
        [Fin x', Fin l', Fin l', Fin l', Fin l']"
      by (subst loop_Suc) (simp add: st)
    then show ?thesis
      by (rule_tac x = x' in exI, rule_tac x = l' in exI) (intro conjI inv(1,2,3,5))
  next
    case False
    then have "loop exact star doping tol (Suc (Suc n)) [Fin x, Fin l, Fin l, Fin l, Fin l] =
        loop exact star doping tol (Suc n) [Fin x', Fin l', Fin l', Fin l', Fin l']"
      by (subst loop_Suc) (simp add: st)
    with Suc.IH [OF inv(1-4) inv'] show ?thesis by simp
  qed
qed

text \<open>A unit vector \<open>(x, l, l, l, l)\<close> with \<open>2 l < x\<close> has a center entry above \<open>2/\<surd>8 = 1/\<surd>2\<close>.\<close>

lemma star_center_bound:
  assumes x: "0 < x" and u: "x * x + 4 * (l * l) = 1" and lo: "2 * l < x" and l: "0 < l"
  shows "2 / sqrt 8 < x"
proof -
  have "(2 * l) * (2 * l) < x * x" using lo l by (intro mult_strict_mono) simp_all
  with u have "1 / 2 < x * x" by simp
  moreover have "(2 / sqrt 8)\<^sup>2 = 1 / 2"
    by (simp add: power_divide)
  ultimately have "(2 / sqrt 8)\<^sup>2 < x\<^sup>2"
    by (simp only: power2_eq_square)
  moreover have "0 \<le> x" using x by simp
  ultimately show ?thesis by (rule power2_less_imp_less)
qed

text \<open>The draw \<open>(2c, c, c, c, c)\<close> normalizes to \<open>(2, 1, 1, 1, 1)/\<surd>8\<close>.\<close>

lemma star_draw_normalized:
  assumes "0 < c"
  shows "vectorNormalize exact [Fin (2 * c), Fin c, Fin c, Fin c, Fin c] =
     [Fin (2 / sqrt 8), Fin (1 / sqrt 8), Fin (1 / sqrt 8), Fin (1 / sqrt 8), Fin (1 / sqrt 8)]"
proof -
  have "2 * c * (2 * c) + 4 * (c * c) = 8 * c\<^sup>2"
    by (simp add: power2_eq_square)
  then have n: "sqrt (2 * c * (2 * c) + 4 * (c * c)) = sqrt 8 * c"
    using assms by (simp only: real_sqrt_mult real_sqrt_abs)
  have nz: "sqrt 8 * c \<noteq> 0" using assms by simp
  show ?thesis
    unfolding vectorNormalize_def Let_def star_norm n
    using nz assms by (simp add: exact_def)
qed

text \<open>Without doping that vector is a fixed point of the step, and the test stops there.\<close>

lemma star_undoped_fixed:
  assumes l: "0 < l" and u: "(2 * l) * (2 * l) + 4 * (l * l) = 1"
  shows "step exact star no_doping [Fin (2 * l), Fin l, Fin l, Fin l, Fin l] =
           [Fin (2 * l), Fin l, Fin l, Fin l, Fin l]"
    and "stops exact star no_doping default_tol [Fin (2 * l), Fin l, Fin l, Fin l, Fin l]"
proof -
  have x: "0 < 2 * l" using l by simp
  have "(4 * l + 0) * (4 * l + 0) + 4 * (2 * l * (2 * l)) = 4 * ((2 * l) * (2 * l) + 4 * (l * l))"
    by simp
  also have "\<dots> = 2\<^sup>2" unfolding u by simp
  finally have n: "sqrt ((4 * l + 0) * (4 * l + 0) + 4 * (2 * l * (2 * l))) = 2"
    by (simp only: real_sqrt_abs)
  show st: "step exact star no_doping [Fin (2 * l), Fin l, Fin l, Fin l, Fin l] =
           [Fin (2 * l), Fin l, Fin l, Fin l, Fin l]"
    unfolding no_doping_def star_step(2) [OF x l order_refl] n by simp
  have "delta_norm exact [Fin (2 * l), Fin l, Fin l, Fin l, Fin l]
      [Fin (2 * l), Fin l, Fin l, Fin l, Fin l] = Fin 0"
    by (simp add: delta_norm_def delta_def vec_defs)
  then show "stops exact star no_doping default_tol [Fin (2 * l), Fin l, Fin l, Fin l, Fin l]"
    by (simp add: stops_def st default_tol_def)
qed

lemma sqrt8_unit:
  "0 < 1 / sqrt 8" "2 * (1 / sqrt 8) = 2 / sqrt 8"
  "2 * (1 / sqrt 8) * (2 * (1 / sqrt 8)) + 4 * (1 / sqrt 8 * (1 / sqrt 8)) = 1"
  by simp_all




section \<open>C8: the call writes to no array it was given\<close>

lemma numbers_append [simp]: "p < length s \<Longrightarrow> numbers (s @ ext) p = numbers s p"
  by (simp add: numbers_def js_index_def nth_append)

lemma rows_append [simp]: "p < length s \<Longrightarrow> rows (s @ ext) p = rows s p"
  by (simp add: rows_def js_index_def nth_append)

lemma numbers_new [simp]: "numbers (s @ [Numbers v]) (length s) = v"
  by (simp add: numbers_def js_index_def)

lemma matrix_at_append:
  "A < length s \<Longrightarrow> list_all (\<lambda>row. row < length s) (rows s A) \<Longrightarrow>
   matrix_at (s @ ext) A = matrix_at s A"
  by (simp add: matrix_at_def list_all_iff)

lemma allocated_append: "allocated s A b \<Longrightarrow> allocated (s @ ext) A b"
  by (auto simp: allocated_def list_all_iff)

lemma unchanged_append [simp]: "unchanged s (s @ ext)"
  by (simp add: unchanged_def)

lemma unchanged_conv: "unchanged s s' \<longleftrightarrow> (\<exists>ext. s' = s @ ext)"
proof
  assume "unchanged s s'"
  then have "s' = s @ drop (length s) s'"
    unfolding unchanged_def by (metis append_take_drop_id)
  then show "\<exists>ext. s' = s @ ext" ..
next
  assume "\<exists>ext. s' = s @ ext"
  then show "unchanged s s'" by (auto simp: unchanged_def)
qed

lemma unchanged_trans: "unchanged s s' \<Longrightarrow> unchanged s' s'' \<Longrightarrow> unchanged s s''"
  by (auto simp: unchanged_conv)

lemma numbers_append_new: "numbers (s @ [Numbers v]) r = (if r = length s then v else numbers s r)"
  by (simp add: numbers_def js_index_def nth_append)

text \<open>One iteration over the store allocates six arrays and decides as the loop on values does.\<close>

lemma loop_st_Suc:
  assumes r_k: "r_k < length s" and al: "allocated s A b"
  defines "M \<equiv> matrix_at s A" and "c \<equiv> numbers s b" and "r \<equiv> numbers s r_k"
  shows "\<exists>ext. length ext = 6 \<and> numbers (s @ ext) (length s + 3) = step rnd M c r \<and>
     loop_st rnd A b tol (Suc n) r_k s =
       (if stops rnd M c tol r then (length s + 3, s @ ext)
        else loop_st rnd A b tol n (length s + 3) (s @ ext))"
proof -
  from al have A: "A < length s" and b: "b < length s"
    and rs: "list_all (\<lambda>row. row < length s) (rows s A)"
    by (simp_all add: allocated_def)
  define P where "P = matrixVectorMultiply rnd M r"
  define Y where "Y = affine rnd M c r"
  define V where "V = to_normalize rnd M c r"
  define R where "R = step rnd M c r"
  define D where "D = delta rnd R r"
  define s1 where "s1 = s @ [Numbers P]"
  define s2 where "s2 = s1 @ [Numbers Y]"
  define s3 where "s3 = s2 @ [Numbers V]"
  define s4 where "s4 = s3 @ [Numbers R]"
  define s5 where "s5 = s4 @ [Numbers D]"
  define s6 where "s6 = s5 @ [Numbers D]"
  have e1: "matrixVectorMultiply_st rnd s A r_k = (length s, s1)"
    by (simp add: matrixVectorMultiply_st_def alloc_def dotProduct_st_def s1_def P_def
        matrixVectorMultiply_def M_def matrix_at_def r_def comp_def)
  have n1: "numbers s1 b = c" "numbers s1 (length s) = P" "numbers s1 r_k = r"
    using b r_k by (simp_all add: s1_def c_def r_def)
  have e2: "alloc s1 (Numbers
             (map_index (\<lambda>value index. jadd rnd value (to_number (js_index (numbers s1 b) index)))
                (numbers s1 (length s)))) = (length s1, s2)"
    by (simp add: alloc_def n1 s2_def Y_def affine_def P_def)
  have l1: "r_k < length s1" using r_k by (simp add: s1_def)
  have n2: "numbers s2 (length s1) = Y" "numbers s2 r_k = r"
    using l1 n1 by (simp_all add: s2_def)
  have e3: "alloc s2 (Numbers (map (\<lambda>value. jmul rnd (jsign (dotProduct_st rnd s2 (length s1) r_k)) value)
              (numbers s2 (length s1)))) = (length s2, s3)"
    by (simp add: alloc_def dotProduct_st_def n2 s3_def V_def to_normalize_def Y_def)
  have e4: "vectorNormalize_st rnd s3 (length s2) = (length s3, s4)"
    by (simp add: vectorNormalize_st_def alloc_def s3_def s4_def R_def step_def V_def)
  have l3: "r_k < length s3" using l1 by (simp add: s3_def s2_def)
  have n3: "numbers s3 r_k = r" using l1 n2 by (simp add: s3_def s2_def)
  have n4: "numbers s4 (length s3) = R" "numbers s4 r_k = r"
    using l3 n3 by (simp_all add: s4_def)
  have e5: "alloc s4 (Numbers
             (map_index (\<lambda>value index. jsub rnd value (to_number (js_index (numbers s4 r_k) index)))
                (numbers s4 (length s3)))) = (length s4, s5)"
    by (simp add: alloc_def n4 s5_def D_def delta_def)
  have l4: "r_k < length s4" "length s3 < length s4" using l3 by (simp_all add: s4_def)
  have n5: "numbers s5 (length s3) = R" "numbers s5 r_k = r" "numbers s5 (length s4) = D"
    using l4 n4 by (simp_all add: s5_def)
  have e6: "alloc s5 (Numbers
             (map_index (\<lambda>value index. jsub rnd value (to_number (js_index (numbers s5 r_k) index)))
                (numbers s5 (length s3)))) = (length s5, s6)"
    by (simp add: alloc_def n5 s6_def D_def delta_def)
  have l5: "length s4 < length s5" by (simp add: s5_def)
  have n6: "numbers s6 (length s4) = D" "numbers s6 (length s5) = D"
    using l5 n5 by (simp_all add: s6_def)
  have test: "jlt (jsqrt rnd (dotProduct_st rnd s6 (length s4) (length s5))) tol = stops rnd M c tol r"
    by (simp add: dotProduct_st_def n6 stops_def delta_norm_def D_def R_def)
  have run: "loop_st rnd A b tol (Suc n) r_k s =
       (if stops rnd M c tol r then (length s3, s6) else loop_st rnd A b tol n (length s3) s6)"
    by (simp add: e1 e2 e3 e4 e5 e6 test)
  have s6: "s6 = s @ [Numbers P, Numbers Y, Numbers V, Numbers R, Numbers D, Numbers D]"
    by (simp add: s6_def s5_def s4_def s3_def s2_def s1_def)
  have len3: "length s3 = length s + 3"
    by (simp add: s3_def s2_def s1_def)
  have "length s3 < length s5" using l4(2) l5 by simp
  then have "numbers s6 (length s3) = R"
    using n5(1) by (simp add: s6_def)
  with run show ?thesis
    unfolding s6 len3 R_def by (intro exI [of _ "[Numbers P, Numbers Y, Numbers V, Numbers (step rnd M c r), Numbers D, Numbers D]"]) simp
qed

text \<open>
  The loop over the store only appends to the store, returns the address of an array it
  allocated (or the address it started from, when no iteration runs), and leaves there
  the vector that the loop on values computes.
\<close>

lemma loop_st_correct:
  "r_k < length s \<Longrightarrow> allocated s A b \<Longrightarrow>
   \<exists>ext. snd (loop_st rnd A b tol n r_k s) = s @ ext \<and>
     fst (loop_st rnd A b tol n r_k s) < length (s @ ext) \<and>
     (fst (loop_st rnd A b tol n r_k s) = r_k \<or> length s \<le> fst (loop_st rnd A b tol n r_k s)) \<and>
     numbers (s @ ext) (fst (loop_st rnd A b tol n r_k s)) =
       loop rnd (matrix_at s A) (numbers s b) tol n (numbers s r_k)"
proof (induction n arbitrary: r_k s)
  case 0
  then show ?case by (intro exI [of _ "[]"]) simp
next
  case (Suc n)
  let ?M = "matrix_at s A" and ?c = "numbers s b" and ?r = "numbers s r_k"
  from Suc.prems have A: "A < length s" and b: "b < length s"
    and rs: "list_all (\<lambda>row. row < length s) (rows s A)"
    by (simp_all add: allocated_def)
  from loop_st_Suc [OF Suc.prems, where rnd = rnd and tol = tol and n = n]
  obtain ext where ext: "length ext = 6"
    and new: "numbers (s @ ext) (length s + 3) = step rnd ?M ?c ?r"
    and run: "loop_st rnd A b tol (Suc n) r_k s =
       (if stops rnd ?M ?c tol ?r then (length s + 3, s @ ext)
        else loop_st rnd A b tol n (length s + 3) (s @ ext))"
    by blast
  show ?case
  proof (cases "stops rnd ?M ?c tol ?r")
    case True
    with run new ext show ?thesis
      by (intro exI [of _ ext]) (simp add: loop_Suc)
  next
    case False
    have 1: "length s + 3 < length (s @ ext)" using ext by simp
    have 2: "allocated (s @ ext) A b" using Suc.prems(2) by (rule allocated_append)
    from Suc.IH [OF 1 2]
    obtain ext' where snd: "snd (loop_st rnd A b tol n (length s + 3) (s @ ext)) = (s @ ext) @ ext'"
      and fst: "fst (loop_st rnd A b tol n (length s + 3) (s @ ext)) < length ((s @ ext) @ ext')"
      and fresh: "fst (loop_st rnd A b tol n (length s + 3) (s @ ext)) = length s + 3 \<or>
         length (s @ ext) \<le> fst (loop_st rnd A b tol n (length s + 3) (s @ ext))"
      and val: "numbers ((s @ ext) @ ext') (fst (loop_st rnd A b tol n (length s + 3) (s @ ext))) =
         loop rnd (matrix_at (s @ ext) A) (numbers (s @ ext) b) tol n (numbers (s @ ext) (length s + 3))"
      by blast
    have "loop rnd (matrix_at (s @ ext) A) (numbers (s @ ext) b) tol n (numbers (s @ ext) (length s + 3))
        = loop rnd ?M ?c tol (Suc n) ?r"
      using False A b rs by (simp add: loop_Suc new matrix_at_append)
    with snd fst fresh val run False show ?thesis
      by (intro exI [of _ "ext @ ext'"]) auto
  qed
qed

text \<open>
  Claim C8. Let the caller's \<open>rng\<close> return the drawn array at address \<open>drawn\<close> and leave
  the store \<open>s0\<close>, in which \<open>A\<close>, its rows and \<open>b\<close> are arrays. Then every array of \<open>s0\<close>
  is unchanged in the store the call leaves, so the matrix and the bias hold the values
  they held; the eigenvector is returned in an array that \<open>s0\<close> does not have, and it holds
  the vector that \<open>powerIteration\<close> computes from the values. When \<open>rng\<close> itself changes no
  array, the store of before the call is unchanged too.
\<close>

theorem powerIteration_writes_no_given_array:
  assumes "rng s = (drawn, s0)" and "allocated s0 A b" and "drawn < length s0"
  shows "unchanged s0 (snd (powerIteration_st rnd A b nIter tol rng s)) \<and>
         matrix_at (snd (powerIteration_st rnd A b nIter tol rng s)) A = matrix_at s0 A \<and>
         numbers (snd (powerIteration_st rnd A b nIter tol rng s)) b = numbers s0 b \<and>
         length s0 \<le> fst (powerIteration_st rnd A b nIter tol rng s) \<and>
         fst (powerIteration_st rnd A b nIter tol rng s)
           < length (snd (powerIteration_st rnd A b nIter tol rng s)) \<and>
         numbers (snd (powerIteration_st rnd A b nIter tol rng s))
             (fst (powerIteration_st rnd A b nIter tol rng s)) =
           powerIteration rnd (matrix_at s0 A) (numbers s0 b) nIter tol (numbers s0 drawn) \<and>
         (unchanged s s0 \<longrightarrow> unchanged s (snd (powerIteration_st rnd A b nIter tol rng s)))"
proof -
  let ?r0 = "vectorNormalize rnd (numbers s0 drawn)"
  let ?s1 = "s0 @ [Numbers ?r0]"
  let ?res = "powerIteration_st rnd A b nIter tol rng s"
  from assms(2) have A: "A < length s0" and b: "b < length s0"
    and rs: "list_all (\<lambda>row. row < length s0) (rows s0 A)"
    by (simp_all add: allocated_def)
  have res: "?res = loop_st rnd A b tol nIter (length s0) ?s1"
    by (simp add: powerIteration_st_def assms(1) vectorNormalize_st_def alloc_def)
  have 1: "length s0 < length ?s1" by simp
  have 2: "allocated ?s1 A b" using assms(2) by (rule allocated_append)
  from loop_st_correct [OF 1 2, where rnd = rnd and tol = tol and n = nIter]
  obtain ext where snd: "snd ?res = ?s1 @ ext"
    and fst: "fst ?res < length (?s1 @ ext)"
    and fresh: "fst ?res = length s0 \<or> length ?s1 \<le> fst ?res"
    and val: "numbers (?s1 @ ext) (fst ?res) =
       loop rnd (matrix_at ?s1 A) (numbers ?s1 b) tol nIter (numbers ?s1 (length s0))"
    unfolding res by blast
  have ext: "snd ?res = s0 @ (Numbers ?r0 # ext)" using snd by simp
  have u: "unchanged s0 (snd ?res)" unfolding ext by (rule unchanged_append)
  have m: "matrix_at (snd ?res) A = matrix_at s0 A"
    unfolding ext using A rs by (rule matrix_at_append)
  have n: "numbers (snd ?res) b = numbers s0 b"
    unfolding ext using b by (rule numbers_append)
  have f: "length s0 \<le> fst ?res" using fresh by auto
  have l: "fst ?res < length (snd ?res)" using fst snd by simp
  have v: "numbers (snd ?res) (fst ?res) =
      powerIteration rnd (matrix_at s0 A) (numbers s0 b) nIter tol (numbers s0 drawn)"
    using val A b rs unfolding snd by (simp add: powerIteration_def matrix_at_append)
  from u m n f l v show ?thesis
    by (auto intro: unchanged_trans)
qed

text \<open>
  C8 on a store that holds the two-node graph and the zero bias, with an \<open>rng\<close> that
  returns the first row of the matrix itself as the drawn array.
\<close>

theorem powerIteration_writes_no_given_array_witness:
  "allocated [Numbers [Fin 0, Fin 1], Numbers [Fin 1, Fin 0], Rows [0, 1], Numbers [Fin 0, Fin 0]] 2 3 \<and>
   unchanged [Numbers [Fin 0, Fin 1], Numbers [Fin 1, Fin 0], Rows [0, 1], Numbers [Fin 0, Fin 0]]
     (snd (powerIteration_st exact 2 3 1000 default_tol (\<lambda>s. (0, s))
        [Numbers [Fin 0, Fin 1], Numbers [Fin 1, Fin 0], Rows [0, 1], Numbers [Fin 0, Fin 0]])) \<and>
   4 \<le> fst (powerIteration_st exact 2 3 1000 default_tol (\<lambda>s. (0, s))
        [Numbers [Fin 0, Fin 1], Numbers [Fin 1, Fin 0], Rows [0, 1], Numbers [Fin 0, Fin 0]])"
proof -
  let ?s = "[Numbers [Fin 0, Fin 1], Numbers [Fin 1, Fin 0], Rows [0, 1], Numbers [Fin 0, Fin 0]]"
  have 1: "(\<lambda>s. (0, s)) ?s = (0, ?s)" by simp
  have 2: "allocated ?s 2 3"
    by (simp add: allocated_def rows_def js_index_def)
  have 3: "0 < length ?s" by simp
  from powerIteration_writes_no_given_array
    [where rng = "\<lambda>s. (0, s)" and s = ?s and rnd = exact and nIter = 1000 and tol = default_tol,
     OF 1 2 3] 2
  show ?thesis by simp
qed

section \<open>C9: a bias shorter than the matrix\<close>

text \<open>
  Claim C9. Whenever the bias \<open>b\<close> is shorter than the dimension \<open>N\<close> of the square
  matrix and at least one iteration runs, the elementwise add of the first iteration visits
  the index \<open>length b\<close>, where \<open>b[index]\<close> is read out of range (it is \<open>undefined\<close>). The
  sum at that index is NaN, which makes \<open>\<mu>\<close> NaN and the result NaN in every entry.
\<close>

theorem short_bias_is_read_out_of_range:
  assumes "square_matrix A N" and "length b < N"
  shows "js_index b (length b) = None \<and>
         length b < length (matrixVectorMultiply rnd A (vectorNormalize rnd draw)) \<and>
         affine rnd A b (vectorNormalize rnd draw) ! length b = NaN \<and>
         powerIteration rnd A b (Suc n) tol draw = replicate N NaN"
proof -
  let ?r0 = "vectorNormalize rnd draw"
  let ?y = "affine rnd A b ?r0"
  from assms have N: "0 < N" by simp
  from square_rows_nonempty [OF assms(1) N]
  have rows: "list_all (\<lambda>row. row \<noteq> []) A" and ne: "A \<noteq> []" and len: "length A = N"
    by simp_all
  have undef: "js_index b (length b) = None"
    by (simp add: js_index_def)
  have visited: "length b < length (matrixVectorMultiply rnd A ?r0)"
    using assms(2) len by simp
  have y: "?y ! length b = NaN"
    using visited by (simp add: affine_def undef)
  have "length b < length ?y" using assms(2) len by simp
  then have mu: "dotProduct rnd ?y ?r0 = NaN"
    using y by (rule dotProduct_NaN_left)
  have v: "to_normalize rnd A b ?r0 = replicate N NaN"
    unfolding to_normalize_def mu
    by (rule nth_equalityI) (simp_all add: len)
  have "vectorNormalize rnd (replicate N NaN) = replicate (length A) NaN"
    by (simp add: len)
  from loop_run_into_NaN [OF rows ne v this, of tol n]
  have "eigenvector (loop_run rnd A b tol (Suc n) ?r0) = replicate N NaN"
    by (simp add: len)
  then have "powerIteration rnd A b (Suc n) tol draw = replicate N NaN"
    by (simp add: powerIteration_def eigenvector_loop_run)
  with undef visited y show ?thesis by simp
qed

text \<open>C9 on the two-node graph with a bias of one entry: index 1 is read out of range.\<close>

theorem short_bias_is_read_out_of_range_witness:
  "square_matrix two_nodes 2 \<and> length [Fin 0] < (2::nat) \<and>
   js_index [Fin 0] 1 = None \<and>
   affine exact two_nodes [Fin 0] (vectorNormalize exact [Fin 1, Fin 1]) ! 1 = NaN \<and>
   powerIteration exact two_nodes [Fin 0] 1 default_tol [Fin 1, Fin 1] = [NaN, NaN]"
proof -
  have sq: "square_matrix two_nodes 2"
    by (simp add: square_matrix_def two_nodes_def)
  have short: "length [Fin 0] < (2::nat)" by simp
  from short_bias_is_read_out_of_range [OF sq short, of exact "[Fin 1, Fin 1]" 0 default_tol] sq
  show ?thesis by (simp add: numeral_2_eq_2)
qed

section \<open>C10: the step is odd when there is no bias\<close>

text \<open>Rounding is odd: the rounding of \<open>- x\<close> is the negation of the rounding of \<open>x\<close>.\<close>

lemma jneg_jneg [simp]: "jneg (jneg x) = x"
  by (cases x) simp_all

lemma jneg_rnd: "odd_rounding rnd \<Longrightarrow> jneg (rnd x) = rnd (- x)"
  by (simp add: odd_rounding_def)

lemma jadd_jneg:
  "odd_rounding rnd \<Longrightarrow> jadd rnd (jneg x) (jneg y) = jneg (jadd rnd x y)"
  by (cases x; cases y) (simp_all add: jneg_rnd)

lemma jsub_jneg:
  "odd_rounding rnd \<Longrightarrow> jsub rnd (jneg x) (jneg y) = jneg (jsub rnd x y)"
  by (cases x; cases y) (simp_all add: jneg_rnd)

lemma jmul_jneg_left:
  "odd_rounding rnd \<Longrightarrow> jmul rnd (jneg x) y = jneg (jmul rnd x y)"
  by (cases x; cases y) (auto simp: jneg_rnd signed_inf_def)

lemma jmul_jneg_right:
  "odd_rounding rnd \<Longrightarrow> jmul rnd x (jneg y) = jneg (jmul rnd x y)"
  by (cases x; cases y) (auto simp: jneg_rnd signed_inf_def)

lemma jdiv_jneg_left:
  "odd_rounding rnd \<Longrightarrow> jdiv rnd (jneg x) y = jneg (jdiv rnd x y)"
  by (cases x; cases y) (auto simp: jneg_rnd signed_inf_def)

lemma to_number_index_jneg:
  "to_number (js_index (map jneg r) i) = jneg (to_number (js_index r i))"
  by (simp add: js_index_def)

lemma foldl_jadd_jneg:
  "odd_rounding rnd \<Longrightarrow> foldl (jadd rnd) (jneg a) (map jneg xs) = jneg (foldl (jadd rnd) a xs)"
  by (induction xs arbitrary: a) (simp_all add: jadd_jneg)

lemma jneg_zero: "Fin 0 = jneg (Fin 0)"
  by simp

lemma dotProduct_jneg_right:
  assumes "odd_rounding rnd"
  shows "dotProduct rnd a (map jneg r) = jneg (dotProduct rnd a r)"
proof -
  have "map_index (\<lambda>value index. jmul rnd value (to_number (js_index (map jneg r) index))) a =
        map jneg (map_index (\<lambda>value index. jmul rnd value (to_number (js_index r index))) a)"
    by (rule nth_equalityI) (simp_all add: to_number_index_jneg jmul_jneg_right [OF assms])
  then show ?thesis
    unfolding dotProduct_foldl
    by (subst jneg_zero) (simp only: foldl_jadd_jneg [OF assms])
qed

lemma dotProduct_jneg_left:
  assumes "odd_rounding rnd"
  shows "dotProduct rnd (map jneg a) r = jneg (dotProduct rnd a r)"
proof -
  have "map_index (\<lambda>value index. jmul rnd value (to_number (js_index r index))) (map jneg a) =
        map jneg (map_index (\<lambda>value index. jmul rnd value (to_number (js_index r index))) a)"
    by (rule nth_equalityI) (simp_all add: jmul_jneg_left [OF assms])
  then show ?thesis
    unfolding dotProduct_foldl
    by (subst jneg_zero) (simp only: foldl_jadd_jneg [OF assms])
qed

lemma affine_jneg:
  assumes "odd_rounding rnd" and "zero_vec b"
  shows "affine rnd A b (map jneg r) = map jneg (affine rnd A b r)"
proof (rule nth_equalityI)
  show "length (affine rnd A b (map jneg r)) = length (map jneg (affine rnd A b r))" by simp
next
  fix i assume "i < length (affine rnd A b (map jneg r))"
  then have i: "i < length A" by simp
  have "to_number (js_index b i) = Fin 0 \<or> to_number (js_index b i) = NaN"
    using assms(2) by (simp add: js_index_def zero_vec_def list_all_length)
  then have "jadd rnd (jneg d) (to_number (js_index b i)) = jneg (jadd rnd d (to_number (js_index b i)))"
    for d
    using jadd_jneg [OF assms(1), of d "Fin 0"] by auto
  with i show "affine rnd A b (map jneg r) ! i = map jneg (affine rnd A b r) ! i"
    by (simp add: affine_def matrixVectorMultiply_def dotProduct_jneg_right [OF assms(1)])
qed

lemma mu_jneg:
  assumes "odd_rounding rnd" and "zero_vec b"
  shows "dotProduct rnd (affine rnd A b (map jneg r)) (map jneg r) = dotProduct rnd (affine rnd A b r) r"
  by (simp add: affine_jneg [OF assms] dotProduct_jneg_left [OF assms(1)]
      dotProduct_jneg_right [OF assms(1)])

lemma to_normalize_jneg:
  assumes "odd_rounding rnd" and "zero_vec b"
  shows "to_normalize rnd A b (map jneg r) = map jneg (to_normalize rnd A b r)"
proof -
  have mu: "dotProduct rnd (map jneg (affine rnd A b r)) (map jneg r) =
      dotProduct rnd (affine rnd A b r) r"
    using mu_jneg [OF assms, of A r] by (simp add: affine_jneg [OF assms])
  show ?thesis
    by (simp add: to_normalize_def affine_jneg [OF assms] mu jmul_jneg_right [OF assms(1)])
qed

lemma squares_jneg:
  "odd_rounding rnd \<Longrightarrow>
   foldl (\<lambda>sum value. jadd rnd sum (jmul rnd value value)) a (map jneg v) =
   foldl (\<lambda>sum value. jadd rnd sum (jmul rnd value value)) a v"
  by (induction v arbitrary: a) (simp_all add: jmul_jneg_left jmul_jneg_right)

lemma euclidean_norm_jneg:
  "odd_rounding rnd \<Longrightarrow> euclidean_norm rnd (map jneg v) = euclidean_norm rnd v"
  by (simp add: euclidean_norm_def squares_jneg)

lemma vectorNormalize_jneg:
  "odd_rounding rnd \<Longrightarrow> vectorNormalize rnd (map jneg v) = map jneg (vectorNormalize rnd v)"
  by (simp add: vectorNormalize_def euclidean_norm_jneg jdiv_jneg_left)

lemma step_jneg:
  assumes "odd_rounding rnd" and "zero_vec b"
  shows "step rnd A b (map jneg r) = map jneg (step rnd A b r)"
  by (simp add: step_def to_normalize_jneg [OF assms] vectorNormalize_jneg [OF assms(1)])

lemma delta_jneg:
  assumes "odd_rounding rnd"
  shows "delta rnd (map jneg r1) (map jneg r0) = map jneg (delta rnd r1 r0)"
  by (rule nth_equalityI)
     (simp_all add: delta_def to_number_index_jneg jsub_jneg [OF assms])

lemma stops_jneg:
  assumes "odd_rounding rnd" and "zero_vec b"
  shows "stops rnd A b tol (map jneg r) = stops rnd A b tol r"
  by (simp add: stops_def delta_norm_def step_jneg [OF assms] delta_jneg [OF assms(1)]
      dotProduct_jneg_left [OF assms(1)] dotProduct_jneg_right [OF assms(1)])

lemma loop_run_jneg:
  assumes "odd_rounding rnd" and "zero_vec b"
  shows "loop_run rnd A b tol n (map jneg r) =
     \<lparr>eigenvector = map jneg (eigenvector (loop_run rnd A b tol n r)),
      iterations = iterations (loop_run rnd A b tol n r),
      converged = converged (loop_run rnd A b tol n r),
      normalized = map (map jneg) (normalized (loop_run rnd A b tol n r))\<rparr>"
  by (induction n arbitrary: r)
     (simp_all add: loop_run_Suc stops_jneg [OF assms] step_jneg [OF assms]
        to_normalize_jneg [OF assms])

text \<open>
  Claim C10. With a bias of zeros and a rounding that commutes with negation, negating
  the iterate negates \<open>y = A r + b\<close>, leaves \<open>\<mu>\<close> unchanged and negates the next iterate;
  the stopping test is the same for both. Hence the runs from a draw and from its negation
  execute the same number of iterations, leave the loop the same way and return vectors that
  are the negation of each other, entry by entry.
\<close>

theorem negated_start_gives_negated_run:
  assumes "odd_rounding rnd" and "zero_vec b"
  shows "affine rnd A b (map jneg r) = map jneg (affine rnd A b r) \<and>
         dotProduct rnd (affine rnd A b (map jneg r)) (map jneg r) =
           dotProduct rnd (affine rnd A b r) r \<and>
         step rnd A b (map jneg r) = map jneg (step rnd A b r) \<and>
         powerIteration rnd A b nIter tol (map jneg draw) =
           map jneg (powerIteration rnd A b nIter tol draw) \<and>
         iterations (powerIteration_run rnd A b nIter tol (map jneg draw)) =
           iterations (powerIteration_run rnd A b nIter tol draw) \<and>
         converged (powerIteration_run rnd A b nIter tol (map jneg draw)) =
           converged (powerIteration_run rnd A b nIter tol draw)"
proof -
  have "powerIteration_run rnd A b nIter tol (map jneg draw) =
     \<lparr>eigenvector = map jneg (eigenvector (powerIteration_run rnd A b nIter tol draw)),
      iterations = iterations (powerIteration_run rnd A b nIter tol draw),
      converged = converged (powerIteration_run rnd A b nIter tol draw),
      normalized = map (map jneg) (normalized (powerIteration_run rnd A b nIter tol draw))\<rparr>"
    by (simp add: powerIteration_run_def Let_def vectorNormalize_jneg [OF assms(1)]
        loop_run_jneg [OF assms])
  then show ?thesis
    using affine_jneg [OF assms, of A r] mu_jneg [OF assms, of A r] step_jneg [OF assms, of A r]
    by (simp add: eigenvector_powerIteration_run [symmetric])
qed

text \<open>
  C10 in exact arithmetic on the two-node graph: the runs from \<open>[1, 1]\<close> and \<open>[-1, -1]\<close>.
\<close>

theorem negated_start_gives_negated_run_witness:
  "odd_rounding exact \<and> zero_vec [Fin 0, Fin 0] \<and>
   powerIteration exact two_nodes [Fin 0, Fin 0] 1000 default_tol [Fin (- 1), Fin (- 1)] =
     map jneg (powerIteration exact two_nodes [Fin 0, Fin 0] 1000 default_tol [Fin 1, Fin 1]) \<and>
   iterations (powerIteration_run exact two_nodes [Fin 0, Fin 0] 1000 default_tol [Fin (- 1), Fin (- 1)]) =
     iterations (powerIteration_run exact two_nodes [Fin 0, Fin 0] 1000 default_tol [Fin 1, Fin 1])"
proof -
  have 1: "odd_rounding exact" by (simp add: odd_rounding_def exact_def)
  have 2: "zero_vec [Fin 0, Fin 0]" by (simp add: zero_vec_def)
  from negated_start_gives_negated_run [OF 1 2, of two_nodes "[]" 1000 default_tol "[Fin 1, Fin 1]"] 1 2
  show ?thesis by simp
qed
end
